theory Spec2Isabelle
  imports Complex_Main
begin

section \<open>Python values, dictionaries and strings\<close>

text \<open>
  The pipeline (\<^verbatim>\<open>main.py\<close>, \<^verbatim>\<open>es_Upload.py\<close>) handles JSON-like Python values: a
  document is a \<^verbatim>\<open>Dict[str, Any]\<close>. A dictionary is an association list with distinct
  keys in insertion order; a string is a \<open>string\<close> whose characters are the code points
  below 256.
\<close>

datatype pyval =
    PNone
  | PBool bool
  | PInt int
  | PFloat real
  | PStr string
  | PList "pyval list"
  | PTuple "pyval list"
  | PDict "(string \<times> pyval) list"

type_synonym document = "(string \<times> pyval) list"

text \<open>Python's truth value of an object, as tested by \<^verbatim>\<open>if x\<close> and \<^verbatim>\<open>not x\<close>.\<close>

fun truthy :: "pyval \<Rightarrow> bool" where
  "truthy PNone = False"
| "truthy (PBool b) = b"
| "truthy (PInt i) = (i \<noteq> 0)"
| "truthy (PFloat r) = (r \<noteq> 0)"
| "truthy (PStr s) = (s \<noteq> [])"
| "truthy (PList xs) = (xs \<noteq> [])"
| "truthy (PTuple xs) = (xs \<noteq> [])"
| "truthy (PDict kvs) = (kvs \<noteq> [])"

text \<open>\<^verbatim>\<open>d.get(k)\<close>, \<^verbatim>\<open>k in d\<close>, \<^verbatim>\<open>d[k] = v\<close> (an existing key keeps its position).\<close>

definition dict_get :: "document \<Rightarrow> string \<Rightarrow> pyval option" where
  "dict_get d k = map_of d k"

definition dict_has :: "document \<Rightarrow> string \<Rightarrow> bool" where
  "dict_has d k = (k \<in> set (map fst d))"

fun dict_set :: "document \<Rightarrow> string \<Rightarrow> pyval \<Rightarrow> document" where
  "dict_set [] k v = [(k, v)]"
| "dict_set ((k', v') # d) k v =
     (if k' = k then (k, v) # d else (k', v') # dict_set d k v)"

definition dict_keys :: "document \<Rightarrow> string list" where
  "dict_keys d = map fst d"

text \<open>
  Exceptions that the modelled code can raise. The external collaborators (document
  store, embedding provider, HTTP transport) raise \<open>StoreError\<close>, \<open>ProviderError\<close>
  and \<open>HTTPError\<close>.
\<close>

datatype py_exn =
    KeyError string
  | AttributeError
  | TypeError
  | ValueError
  | StoreError
  | ProviderError
  | HTTPError

fun exn_str :: "py_exn \<Rightarrow> string" where
  "exn_str (KeyError k) = ''KeyError: '' @ k"
| "exn_str AttributeError = ''AttributeError''"
| "exn_str TypeError = ''TypeError''"
| "exn_str ValueError = ''ValueError''"
| "exn_str StoreError = ''StoreError''"
| "exn_str ProviderError = ''ProviderError''"
| "exn_str HTTPError = ''HTTPError''"

text \<open>
  \<^verbatim>\<open>str.strip()\<close> removes leading and trailing whitespace: the characters for which
  \<^verbatim>\<open>str.isspace\<close> holds (tab to carriage return, the four separators 28 to 31, space,
  next line 133 and no-break space 160).
\<close>

definition py_isspace :: "char \<Rightarrow> bool" where
  "py_isspace c =
     (let n = (of_char c :: nat)
      in (9 \<le> n \<and> n \<le> 13) \<or> (28 \<le> n \<and> n \<le> 32) \<or> n = 133 \<or> n = 160)"

definition strip :: "string \<Rightarrow> string" where
  "strip s = rev (dropWhile py_isspace (rev (dropWhile py_isspace s)))"

text \<open>\<^verbatim>\<open>d.get(k, '').strip()\<close>: a value that is not a string has no \<^verbatim>\<open>strip\<close>.\<close>

definition get_stripped :: "document \<Rightarrow> string \<Rightarrow> py_exn + string" where
  "get_stripped d k =
     (case dict_get d k of
        None \<Rightarrow> Inr (strip [])
      | Some (PStr s) \<Rightarrow> Inr (strip s)
      | Some _ \<Rightarrow> Inl AttributeError)"

text \<open>Decimal digits, \<^verbatim>\<open>str(n)\<close> of a natural number, \<^verbatim>\<open>s.zfill(w)\<close>, \<^verbatim>\<open>sep.join(xs)\<close>.\<close>

definition is_digit :: "char \<Rightarrow> bool" where
  "is_digit c = (let n = (of_char c :: nat) in 48 \<le> n \<and> n \<le> 57)"

definition digit_char :: "nat \<Rightarrow> char" where
  "digit_char n = char_of (48 + n mod 10)"

fun str_nat :: "nat \<Rightarrow> string" where
  "str_nat n = (if n < 10 then [digit_char n] else str_nat (n div 10) @ [digit_char (n mod 10)])"

declare str_nat.simps [simp del]

definition zfill :: "nat \<Rightarrow> string \<Rightarrow> string" where
  "zfill w s = replicate (w - length s) (CHR ''0'') @ s"

fun join :: "string \<Rightarrow> string list \<Rightarrow> string" where
  "join sep [] = []"
| "join sep [x] = x"
| "join sep (x # y # ys) = x @ sep @ join sep (y # ys)"


text \<open>
  \<^verbatim>\<open>s.startswith(p)\<close>, \<^verbatim>\<open>sub in s\<close>, and \<^verbatim>\<open>s.replace(old, new)\<close> for a non-empty
  \<open>old\<close> (the code only replaces non-empty literals): non-overlapping occurrences, left
  to right.
\<close>

fun startswith :: "string \<Rightarrow> string \<Rightarrow> bool" where
  "startswith s [] = True"
| "startswith [] (p # ps) = False"
| "startswith (c # cs) (p # ps) = (c = p \<and> startswith cs ps)"

fun contains :: "string \<Rightarrow> string \<Rightarrow> bool" where
  "contains [] sub = (sub = [])"
| "contains (c # cs) sub = (startswith (c # cs) sub \<or> contains cs sub)"

function str_replace :: "string \<Rightarrow> string \<Rightarrow> string \<Rightarrow> string" where
  "str_replace [] old new = []"
| "str_replace (c # cs) old new =
     (if old \<noteq> [] \<and> startswith (c # cs) old
      then new @ str_replace (drop (length old) (c # cs)) old new
      else c # str_replace cs old new)"
  by pat_completeness auto
termination
  by (relation "measure (\<lambda>(s, old, new). length s)") auto

text \<open>
  The regular expression \<^verbatim>\<open>(\d{4})-(\d{1,2})-(\d{1,2})\<close> with \<^verbatim>\<open>re.search\<close>: the
  leftmost position where four digits, a hyphen, one or two digits, a hyphen and one or
  two digits follow; the digit groups are greedy. The result is the three groups.
\<close>

definition take_digits :: "nat \<Rightarrow> string \<Rightarrow> string" where
  "take_digits n s = takeWhile is_digit (take n s)"

definition match_date_here :: "string \<Rightarrow> (string \<times> string \<times> string) option" where
  "match_date_here s =
     (let y = take 4 s in
      if length y = 4 \<and> list_all is_digit y then
        (case drop 4 s of
           [] \<Rightarrow> None
         | c1 # r2 \<Rightarrow>
             if c1 = CHR ''-'' then
               (let m = take_digits 2 r2 in
                if m = [] then None
                else
                  (case drop (length m) r2 of
                     [] \<Rightarrow> None
                   | c2 # r4 \<Rightarrow>
                       if c2 = CHR ''-'' then
                         (let d = take_digits 2 r4 in if d = [] then None else Some (y, m, d))
                       else None))
             else None)
      else None)"

fun search_date :: "string \<Rightarrow> (string \<times> string \<times> string) option" where
  "search_date [] = None"
| "search_date (c # cs) =
     (case match_date_here (c # cs) of Some g \<Rightarrow> Some g | None \<Rightarrow> search_date cs)"

text \<open>
  \<^verbatim>\<open>int(s, 16)\<close> on a string of hexadecimal digits; any other string is modelled as a
  \<^verbatim>\<open>ValueError\<close>.
\<close>

definition hex_val :: "char \<Rightarrow> nat option" where
  "hex_val c =
     (let n = (of_char c :: nat) in
      if 48 \<le> n \<and> n \<le> 57 then Some (n - 48)
      else if 97 \<le> n \<and> n \<le> 102 then Some (n - 87)
      else if 65 \<le> n \<and> n \<le> 70 then Some (n - 55)
      else None)"

fun int_hex_acc :: "nat \<Rightarrow> string \<Rightarrow> nat option" where
  "int_hex_acc acc [] = Some acc"
| "int_hex_acc acc (c # cs) =
     (case hex_val c of None \<Rightarrow> None | Some v \<Rightarrow> int_hex_acc (16 * acc + v) cs)"

definition int_hex :: "string \<Rightarrow> py_exn + nat" where
  "int_hex s =
     (if s = [] then Inl ValueError
      else case int_hex_acc 0 s of None \<Rightarrow> Inl ValueError | Some n \<Rightarrow> Inr n)"

section \<open>Dates\<close>

text \<open>
  A \<^verbatim>\<open>datetime\<close> value, and \<^verbatim>\<open>strftime\<close> for the directives the code uses, as the C
  library under CPython prints them on Linux: \<^verbatim>\<open>%Y\<close> is the year in decimal without
  padding (a year below 1000 has fewer than four digits), \<^verbatim>\<open>%m %d %H %M %S\<close> are two
  digits, zero-padded.
\<close>

record datetime =
  dt_year :: nat
  dt_month :: nat
  dt_day :: nat
  dt_hour :: nat
  dt_minute :: nat
  dt_second :: nat
  dt_microsecond :: nat

definition directive :: "datetime \<Rightarrow> char \<Rightarrow> string" where
  "directive dt d =
     (if d = CHR ''Y'' then str_nat (dt_year dt)
      else if d = CHR ''m'' then zfill 2 (str_nat (dt_month dt))
      else if d = CHR ''d'' then zfill 2 (str_nat (dt_day dt))
      else if d = CHR ''H'' then zfill 2 (str_nat (dt_hour dt))
      else if d = CHR ''M'' then zfill 2 (str_nat (dt_minute dt))
      else if d = CHR ''S'' then zfill 2 (str_nat (dt_second dt))
      else [CHR ''%'', d])"

fun strftime :: "datetime \<Rightarrow> string \<Rightarrow> string" where
  "strftime dt [] = []"
| "strftime dt [c] = [c]"
| "strftime dt (c # d # cs) =
     (if c = CHR ''%'' then directive dt d @ strftime dt cs else c # strftime dt (d # cs))"

text \<open>
  \<^verbatim>\<open>datetime.isoformat()\<close>: Python pads the year to four digits itself, and adds the
  microseconds as six digits when they are not zero.
\<close>

definition isoformat :: "datetime \<Rightarrow> string" where
  "isoformat dt =
     zfill 4 (str_nat (dt_year dt)) @ ''-'' @ zfill 2 (str_nat (dt_month dt)) @ ''-'' @
     zfill 2 (str_nat (dt_day dt)) @ ''T'' @ zfill 2 (str_nat (dt_hour dt)) @ '':'' @
     zfill 2 (str_nat (dt_minute dt)) @ '':'' @ zfill 2 (str_nat (dt_second dt)) @
     (if dt_microsecond dt = 0 then [] else ''.'' @ zfill 6 (str_nat (dt_microsecond dt)))"

section \<open>The document store\<close>

text \<open>
  The Elasticsearch client is an external collaborator. Its state is modelled as far as
  the code observes it: per index the known field names and the stored documents, each
  with the internal id the store assigned and a version. Every client call may raise;
  which calls do is scripted by \<open>faults\<close>, one flag per call in call order (an
  exhausted script means no further failure). Writes are taken to be visible to the
  next search, and a write does not change the field list of the index.
\<close>

record stored_doc =
  doc_id :: nat
  doc_version :: nat
  doc_source :: document

record es_index =
  idx_fields :: "string list"
  idx_docs :: "stored_doc list"

record es_store =
  indices :: "string \<Rightarrow> es_index option"
  next_id :: nat
  faults :: "bool list"

record es_response =
  resp_id :: nat
  resp_index :: string
  resp_version :: nat

definition es_call :: "es_store \<Rightarrow> bool \<times> es_store" where
  "es_call s = (case faults s of [] \<Rightarrow> (False, s) | f # fs \<Rightarrow> (f, s\<lparr>faults := fs\<rparr>))"

text \<open>Sequencing of store operations: an exception ends the sequence, the state is kept.\<close>

definition andthen ::
  "(py_exn + 'a) \<times> es_store \<Rightarrow> ('a \<Rightarrow> es_store \<Rightarrow> (py_exn + 'b) \<times> es_store)
     \<Rightarrow> (py_exn + 'b) \<times> es_store" where
  "andthen m f = (case m of (Inl e, s) \<Rightarrow> (Inl e, s) | (Inr x, s) \<Rightarrow> f x s)"

definition indices_exists :: "es_store \<Rightarrow> string \<Rightarrow> (py_exn + bool) \<times> es_store" where
  "indices_exists s index =
     (case es_call s of
        (True, s') \<Rightarrow> (Inl StoreError, s')
      | (False, s') \<Rightarrow> (Inr (indices s' index \<noteq> None), s'))"

definition indices_create ::
  "es_store \<Rightarrow> string \<Rightarrow> string list \<Rightarrow> (py_exn + unit) \<times> es_store" where
  "indices_create s index props =
     (case es_call s of
        (True, s') \<Rightarrow> (Inl StoreError, s')
      | (False, s') \<Rightarrow>
          (case indices s' index of
             Some _ \<Rightarrow> (Inl StoreError, s')
           | None \<Rightarrow>
               (Inr (), s'\<lparr>indices := (indices s')(index \<mapsto>
                             \<lparr>idx_fields = props, idx_docs = []\<rparr>)\<rparr>)))"

definition indices_get_mapping ::
  "es_store \<Rightarrow> string \<Rightarrow> (py_exn + string list) \<times> es_store" where
  "indices_get_mapping s index =
     (case es_call s of
        (True, s') \<Rightarrow> (Inl StoreError, s')
      | (False, s') \<Rightarrow>
          (case indices s' index of
             None \<Rightarrow> (Inl StoreError, s')
           | Some ix \<Rightarrow> (Inr (idx_fields ix), s')))"

text \<open>A search returns the hits in store order; \<open>p\<close> is the query as a predicate.\<close>

definition es_search ::
  "es_store \<Rightarrow> string \<Rightarrow> (document \<Rightarrow> bool) \<Rightarrow> (py_exn + stored_doc list) \<times> es_store" where
  "es_search s index p =
     (case es_call s of
        (True, s') \<Rightarrow> (Inl StoreError, s')
      | (False, s') \<Rightarrow>
          (case indices s' index of
             None \<Rightarrow> (Inl StoreError, s')
           | Some ix \<Rightarrow> (Inr (filter (\<lambda>d. p (doc_source d)) (idx_docs ix)), s')))"

fun replace_doc :: "stored_doc list \<Rightarrow> nat \<Rightarrow> document \<Rightarrow> stored_doc list" where
  "replace_doc [] i src = []"
| "replace_doc (d # ds) i src =
     (if doc_id d = i then d\<lparr>doc_version := doc_version d + 1, doc_source := src\<rparr> # ds
      else d # replace_doc ds i src)"

text \<open>
  \<^verbatim>\<open>es.index(index, id, document)\<close> overwrites the document that has the id, or creates
  it; without an id the store assigns a new one. An index that is missing is created.
\<close>

definition es_index_doc ::
  "es_store \<Rightarrow> string \<Rightarrow> nat option \<Rightarrow> document \<Rightarrow> (py_exn + es_response) \<times> es_store" where
  "es_index_doc s index ident src =
     (case es_call s of
        (True, s') \<Rightarrow> (Inl StoreError, s')
      | (False, s') \<Rightarrow>
          (let ix = (case indices s' index of
                       None \<Rightarrow> \<lparr>idx_fields = [], idx_docs = []\<rparr> | Some ix \<Rightarrow> ix)
           in case ident of
                Some i \<Rightarrow>
                  (case find (\<lambda>d. doc_id d = i) (idx_docs ix) of
                     Some d \<Rightarrow>
                       (Inr \<lparr>resp_id = i, resp_index = index, resp_version = doc_version d + 1\<rparr>,
                        s'\<lparr>indices := (indices s')(index \<mapsto>
                              ix\<lparr>idx_docs := replace_doc (idx_docs ix) i src\<rparr>)\<rparr>)
                   | None \<Rightarrow>
                       (Inr \<lparr>resp_id = i, resp_index = index, resp_version = 1\<rparr>,
                        s'\<lparr>indices := (indices s')(index \<mapsto>
                              ix\<lparr>idx_docs := idx_docs ix @
                                [\<lparr>doc_id = i, doc_version = 1, doc_source = src\<rparr>]\<rparr>)\<rparr>))
              | None \<Rightarrow>
                  (Inr \<lparr>resp_id = next_id s', resp_index = index, resp_version = 1\<rparr>,
                   s'\<lparr>indices := (indices s')(index \<mapsto>
                          ix\<lparr>idx_docs := idx_docs ix @
                            [\<lparr>doc_id = next_id s', doc_version = 1, doc_source = src\<rparr>]\<rparr>),
                      next_id := next_id s' + 1\<rparr>)))"

definition indices_refresh :: "es_store \<Rightarrow> string \<Rightarrow> (py_exn + unit) \<times> es_store" where
  "indices_refresh s index =
     (case es_call s of
        (True, s') \<Rightarrow> (Inl StoreError, s')
      | (False, s') \<Rightarrow>
          (case indices s' index of None \<Rightarrow> (Inl StoreError, s') | Some _ \<Rightarrow> (Inr (), s')))"


section \<open>The listing, the ledger and the environment\<close>

text \<open>
  A listing entry (\<^verbatim>\<open>li.kb-query-item\<close>) as the structural selectors of \<^verbatim>\<open>main_process\<close>
  observe it: its classes, the stripped text of the title, summary and date elements
  (\<open>None\<close> when the element is missing), for each dynamic list the \<^verbatim>\<open>href\<close> and text of
  its first link, and the \<^verbatim>\<open>href\<close> of the button. \<open>art_detail\<close> is what the detail-page
  heuristics recover from the page behind the link: \<open>None\<close> when the fetch raises or
  the page has no content container, otherwise the label, summary and full content
  found there (each \<open>None\<close> when the page does not yield it).
\<close>

record detail =
  det_label :: "string option"
  det_summary :: "string option"
  det_full_content :: "string option"

record article =
  art_classes :: "string list"
  art_title :: "string option"
  art_summary :: "string option"
  art_dynamic_links :: "(string \<times> string) option list"
  art_date_text :: "string option"
  art_href :: "string option"
  art_detail :: "detail option"

text \<open>A listing page: the fetch fails, or it yields the entries and whether a next-page
  button is present.\<close>

datatype page_result = FetchFailed | Page "article list" bool

text \<open>A line of the backup ledger \<^verbatim>\<open>report_uploaded.jsonl\<close>: a record, or a line that
  does not parse.\<close>

datatype ledger_line = BadLine | Rec document

text \<open>
  What the code takes from outside: the standard library's \<^verbatim>\<open>strptime\<close> (\<open>None\<close> for
  \<^verbatim>\<open>ValueError\<close>), the clock, \<^verbatim>\<open>hashlib.md5(...).hexdigest()\<close>, the draws of
  \<^verbatim>\<open>random.randint(300, 999)\<close>, the tokenizer, the embedding provider (\<open>None\<close> when the
  request raises), the store's phrase and term matching, the listing site, and the
  text that an f-string gives a value that is neither a string nor an integer.
\<close>

record env =
  strptime :: "string \<Rightarrow> string \<Rightarrow> datetime option"
  now :: datetime
  md5_hexdigest :: "string \<Rightarrow> string"
  randint :: "nat \<Rightarrow> nat"
  encode :: "string \<Rightarrow> nat list"
  decode :: "nat list \<Rightarrow> string"
  embeddings_create :: "string \<Rightarrow> real list option"
  match_phrase :: "pyval \<Rightarrow> document \<Rightarrow> bool"
  term_match :: "pyval \<Rightarrow> document \<Rightarrow> bool"
  fetch_page :: "nat \<Rightarrow> page_result"
  py_repr :: "pyval \<Rightarrow> string"

text \<open>
  The state a run reads and writes: the history file with the cursor, the backup
  ledger (appending can fail), the store, the texts sent to the embedding provider so
  far, and the number of random draws made.
\<close>

record world =
  history :: document
  ledger :: "ledger_line list"
  ledger_writable :: bool
  store :: es_store
  provider_calls :: "string list"
  draws :: nat

section \<open>\<^verbatim>\<open>ESUploader\<close> (\<^verbatim>\<open>es_Upload.py\<close>)\<close>

definition date_formats :: "string list" where
  "date_formats =
     [''%Y/%m/%d %H:%M'', ''%Y-%m-%d %H:%M:%S'', ''%Y-%m-%d %H:%M'', ''%Y/%m/%d'', ''%Y-%m-%d'']"

text \<open>The loop over the formats: the first one that parses wins.\<close>

fun first_parse :: "env \<Rightarrow> string \<Rightarrow> string list \<Rightarrow> datetime option" where
  "first_parse e date_str [] = None"
| "first_parse e date_str (fmt # fmts) =
     (case strptime e date_str fmt of
        Some date_obj \<Rightarrow> Some date_obj
      | None \<Rightarrow> first_parse e date_str fmts)"

definition format_date :: "env \<Rightarrow> string \<Rightarrow> string option" where
  "format_date e date_str =
     (if date_str = [] then None
      else case first_parse e date_str date_formats of
             Some date_obj \<Rightarrow> Some (strftime date_obj ''%Y-%m-%dT%H:%M:%S'')
           | None \<Rightarrow> None)"

definition get_index_fields :: "es_store \<Rightarrow> string \<Rightarrow> string list \<times> es_store" where
  "get_index_fields s index =
     (case indices_get_mapping s index of
        (Inl _, s') \<Rightarrow> ([], s')
      | (Inr props, s') \<Rightarrow> (props, s'))"

definition time_fields_to_exclude :: "string list" where
  "time_fields_to_exclude =
     [''time_articut_tagger'', ''time_date_conversion'', ''time_prewrite_summary'',
      ''time_text_embeddings'', ''total_processing_time'']"

definition none_to_empty :: "pyval \<Rightarrow> pyval" where
  "none_to_empty v = (case v of PNone \<Rightarrow> PStr [] | _ \<Rightarrow> v)"

text \<open>One field of the sanitize loop, in the order of its tests.\<close>

definition clean_value :: "env \<Rightarrow> string \<Rightarrow> pyval \<Rightarrow> pyval" where
  "clean_value e key val =
     (case val of
        PNone \<Rightarrow> PStr []
      | PStr v \<Rightarrow>
          (if key = ''dt'' \<or> key = ''date_created'' then
             (case format_date e v of
                Some formatted_date \<Rightarrow> if formatted_date \<noteq> [] then PStr formatted_date else PStr v
              | None \<Rightarrow> PStr v)
           else PStr v)
      | PList xs \<Rightarrow> PList (map none_to_empty xs)
      | PTuple xs \<Rightarrow> PList (map none_to_empty xs)
      | PDict kvs \<Rightarrow> PDict (map (\<lambda>(k, v). (k, none_to_empty v)) kvs)
      | _ \<Rightarrow> val)"

fun clean_document :: "env \<Rightarrow> document \<Rightarrow> document" where
  "clean_document e [] = []"
| "clean_document e ((key, val) # rest) =
     (if key \<in> set time_fields_to_exclude then clean_document e rest
      else (key, clean_value e key val) # clean_document e rest)"

text \<open>The result dictionaries of the uploader and of \<^verbatim>\<open>save_to_es\<close>.\<close>

record result_data =
  operation_type :: string
  document_id :: nat
  rd_index :: string
  version :: nat
  ignored_fields :: "string list option"

record es_result =
  Result :: string
  Message :: string
  ResultData :: "result_data option"
  existing_id :: "nat option"

definition result_N :: "string \<Rightarrow> es_result" where
  "result_N msg = \<lparr>Result = ''N'', Message = msg, ResultData = None, existing_id = None\<rparr>"

definition initial_mapping :: "string list" where
  "initial_mapping = [''pid'', ''category'', ''entity'', ''articut_result_obj'']"

text \<open>The body of the \<^verbatim>\<open>try\<close> of \<^verbatim>\<open>upload_single_document\<close> after the sanitize loop.\<close>

definition upload_cleaned ::
  "env \<Rightarrow> es_store \<Rightarrow> document \<Rightarrow> string \<Rightarrow> bool \<Rightarrow> (py_exn + es_result) \<times> es_store" where
  "upload_cleaned e s cleaned_document index strict_fields =
     andthen (indices_exists s index) (\<lambda>ex s1.
     andthen (if ex then (Inr (), s1) else indices_create s1 index initial_mapping) (\<lambda>_ s2.
       let (existing_fields, s3) =
             (if strict_fields then get_index_fields s2 index else ([], s2));
           filtered_document =
             (if strict_fields
              then filter (\<lambda>(k, v). k \<in> set existing_fields) cleaned_document
              else cleaned_document);
           ignored =
             (if strict_fields
              then filter (\<lambda>k. k \<notin> set existing_fields) (dict_keys cleaned_document)
              else [])
       in case dict_get filtered_document ''pid'' of
            None \<Rightarrow> (Inl (KeyError ''pid''), s3)
          | Some pid \<Rightarrow>
              andthen (es_search s3 index (term_match e pid)) (\<lambda>hits s4.
              andthen
                (case hits of
                   h # _ \<Rightarrow>
                     andthen (es_index_doc s4 index (Some (doc_id h)) filtered_document)
                       (\<lambda>response s'. (Inr (response, ''updated''), s'))
                 | [] \<Rightarrow>
                     andthen (es_index_doc s4 index None filtered_document)
                       (\<lambda>response s'. (Inr (response, ''created''), s')))
                (\<lambda>(response, operation) s5.
              andthen (indices_refresh s5 index) (\<lambda>_ s6.
                (Inr \<lparr>Result = ''Y'',
                      Message = ''Document successfully '' @ operation @
                        (if ignored \<noteq> []
                         then '' (ignored fields: '' @ join '', '' ignored @ '')'' else []),
                      ResultData = Some
                        \<lparr>operation_type = operation,
                         document_id = resp_id response,
                         rd_index = resp_index response,
                         version = resp_version response,
                         ignored_fields = (if ignored \<noteq> [] then Some ignored else None)\<rparr>,
                      existing_id = None\<rparr>, s6))))))"

definition upload_single_document ::
  "env \<Rightarrow> es_store \<Rightarrow> document \<Rightarrow> string \<Rightarrow> bool \<Rightarrow> es_result \<times> es_store" where
  "upload_single_document e s doc index strict_fields =
     (if doc = [] then (result_N ''Document cannot be empty'', s)
      else if \<not> dict_has doc ''pid'' then (result_N (''Document must contain '' @ [CHR 0x27] @ ''pid'' @ [CHR 0x27] @ '' field''), s)
      else
        (case upload_cleaned e s (clean_document e doc) index strict_fields of
           (Inl ex, s') \<Rightarrow> (result_N (''Failed to upload document: '' @ exn_str ex), s')
         | (Inr r, s') \<Rightarrow> (r, s')))"


section \<open>\<^verbatim>\<open>save_to_es\<close> (\<^verbatim>\<open>main.py\<close>)\<close>

definition index_name :: string where
  "index_name = ''lab_tfc_search_test''"

text \<open>\<^verbatim>\<open>d.get(k, '')\<close>, and the text of a value inside an f-string.\<close>

definition get_or_empty :: "document \<Rightarrow> string \<Rightarrow> pyval" where
  "get_or_empty d k = (case dict_get d k of None \<Rightarrow> PStr [] | Some v \<Rightarrow> v)"

definition py_str :: "env \<Rightarrow> pyval \<Rightarrow> string" where
  "py_str e v =
     (case v of
        PStr s \<Rightarrow> s
      | PInt i \<Rightarrow> (if i < 0 then CHR ''-'' # str_nat (nat (- i)) else str_nat (nat i))
      | _ \<Rightarrow> py_repr e v)"

text \<open>Lines 89 to 93: an empty date becomes today's date.\<close>

definition ensure_date :: "env \<Rightarrow> document \<Rightarrow> py_exn + document" where
  "ensure_date e data =
     (case get_stripped data ''date'' of
        Inl ex \<Rightarrow> Inl ex
      | Inr d \<Rightarrow>
          Inr (if d = [] then dict_set data ''date'' (PStr (strftime (now e) ''%Y-%m-%d''))
               else data))"

text \<open>Lines 100 to 115: the date prefix of a generated identifier.\<close>

definition date_prefix_of :: "env \<Rightarrow> document \<Rightarrow> py_exn + string" where
  "date_prefix_of e data =
     (let date_str = get_or_empty data ''date'' in
      case (if truthy date_str
            then (case date_str of
                    PStr ds \<Rightarrow>
                      (case search_date ds of
                         Some (year, month, day) \<Rightarrow> Inr (year @ zfill 2 month @ zfill 2 day)
                       | None \<Rightarrow> Inr [])
                  | _ \<Rightarrow> Inl TypeError)
            else Inr []) of
        Inl ex \<Rightarrow> Inl ex
      | Inr date_prefix \<Rightarrow>
          if date_prefix = [] then
            (case dict_get data ''date'' of
               Some (PStr ds) \<Rightarrow>
                 (case strptime e ds ''%Y-%m-%d'' of
                    Some data_date \<Rightarrow> Inr (strftime data_date ''%Y%m%d'')
                  | None \<Rightarrow> Inr (strftime (now e) ''%Y%m%d''))
             | _ \<Rightarrow> Inr (strftime (now e) ''%Y%m%d''))
          else Inr date_prefix)"

text \<open>Lines 117 to 126: the identifier from \<^verbatim>\<open>article_id\<close>, or from the md5 of the title.\<close>

definition serial_num :: "nat \<Rightarrow> string" where
  "serial_num n = zfill 3 (str_nat (n mod 1000))"

definition generate_pid :: "env \<Rightarrow> document \<Rightarrow> py_exn + document" where
  "generate_pid e data =
     (case date_prefix_of e data of
        Inl ex \<Rightarrow> Inl ex
      | Inr date_prefix \<Rightarrow>
          (let article_id = get_or_empty data ''article_id'' in
           if truthy article_id
           then Inr (dict_set data ''pid'' (PStr (date_prefix @ py_str e article_id)))
           else
             (case get_or_empty data ''title'' of
                PStr title \<Rightarrow>
                  (let title_hash = md5_hexdigest e title in
                   case int_hex (drop (length title_hash - 4) title_hash) of
                     Inl ex \<Rightarrow> Inl ex
                   | Inr n \<Rightarrow> Inr (dict_set data ''pid'' (PStr (date_prefix @ serial_num n))))
              | _ \<Rightarrow> Inl AttributeError)))"

definition ensure_pid :: "env \<Rightarrow> document \<Rightarrow> py_exn + document" where
  "ensure_pid e data =
     (case dict_get data ''pid'' of
        None \<Rightarrow> generate_pid e data
      | Some v \<Rightarrow> if \<not> truthy v then generate_pid e data else Inr data)"

text \<open>Lines 168 to 174: None and the empty string become the empty string.\<close>

definition clean_data :: "document \<Rightarrow> document" where
  "clean_data data =
     map (\<lambda>(key, val). (key, if val \<noteq> PNone \<and> val \<noteq> PStr [] then val else PStr [])) data"

text \<open>
  One pass of the retry loop. \<open>Retry\<close> is \<^verbatim>\<open>continue\<close>; the dictionary \<open>data\<close> is
  mutated in place, so its changes survive an exception and a retry.
\<close>

datatype attempt_outcome = Return es_result | Retry

definition upload_step ::
  "env \<Rightarrow> nat \<Rightarrow> nat \<Rightarrow> document \<Rightarrow> es_store \<Rightarrow> attempt_outcome \<times> document \<times> es_store" where
  "upload_step e max_retries attempt data s =
     (case upload_single_document e s (clean_data data) index_name False of
        (result, s') \<Rightarrow>
          if Result result = ''Y'' then (Return result, data, s')
          else if Suc attempt < max_retries then (Retry, data, s')
          else (Return (result_N (''Upload failed after '' @ str_nat max_retries @
                  '' attempts: '' @ Message result)), data, s'))"

definition save_attempt ::
  "env \<Rightarrow> nat \<Rightarrow> nat \<Rightarrow> document \<Rightarrow> es_store \<Rightarrow> attempt_outcome \<times> document \<times> es_store" where
  "save_attempt e max_retries attempt data s =
     (let on_exception = (\<lambda>ex data' s'.
            if Suc attempt < max_retries then (Retry, data', s')
            else (Return (result_N (''ES operation failed after '' @ str_nat max_retries @
                    '' attempts: '' @ exn_str ex)), data', s'))
      in case get_stripped data ''title'' of
           Inl ex \<Rightarrow> on_exception ex data s
         | Inr t \<Rightarrow>
             if t = [] then (Return (result_N ''title must not be empty''), data, s)
             else
               (case ensure_date e data of
                  Inl ex \<Rightarrow> on_exception ex data s
                | Inr data1 \<Rightarrow>
                    (case ensure_pid e data1 of
                       Inl ex \<Rightarrow> on_exception ex data1 s
                     | Inr data2 \<Rightarrow>
                         (let title = get_or_empty data2 ''title'' in
                          if truthy title then
                            (case es_search s index_name (match_phrase e title) of
                               (Inr (hit # _), s1) \<Rightarrow>
                                 (Return \<lparr>Result = ''SKIP'',
                                    Message = ''Document with same title already exists'',
                                    ResultData = None,
                                    existing_id = Some (doc_id hit)\<rparr>, data2, s1)
                             | (Inr [], s1) \<Rightarrow> upload_step e max_retries attempt data2 s1
                             | (Inl search_error, s1) \<Rightarrow>
                                 if Suc attempt < max_retries then (Retry, data2, s1)
                                 else upload_step e max_retries attempt data2 s1)
                          else upload_step e max_retries attempt data2 s))))"

fun save_attempts ::
  "env \<Rightarrow> nat \<Rightarrow> nat list \<Rightarrow> document \<Rightarrow> es_store \<Rightarrow> es_result \<times> document \<times> es_store" where
  "save_attempts e max_retries [] data s =
     (result_N ''Unexpected error in save_to_es'', data, s)"
| "save_attempts e max_retries (attempt # rest) data s =
     (case save_attempt e max_retries attempt data s of
        (Return r, data', s') \<Rightarrow> (r, data', s')
      | (Retry, data', s') \<Rightarrow> save_attempts e max_retries rest data' s')"

definition save_to_es ::
  "env \<Rightarrow> document \<Rightarrow> es_store \<Rightarrow> nat \<Rightarrow> es_result \<times> document \<times> es_store" where
  "save_to_es e data s max_retries = save_attempts e max_retries [0..<max_retries] data s"


section \<open>Embedding and the per-article step (\<^verbatim>\<open>main.py\<close>)\<close>

definition text_embeddings_3 :: "env \<Rightarrow> string \<Rightarrow> world \<Rightarrow> (py_exn + real list) \<times> world" where
  "text_embeddings_3 e text w =
     (let tokens = encode e text;
          max_tokens = 8000;
          text' = (if length tokens > max_tokens then decode e (take max_tokens tokens)
                   else text);
          w' = w\<lparr>provider_calls := provider_calls w @ [text']\<rparr>
      in case embeddings_create e text' of
           None \<Rightarrow> (Inl ProviderError, w')
         | Some embedding \<Rightarrow> (Inr embedding, w'))"

definition backup_to_jsonl :: "document \<Rightarrow> world \<Rightarrow> bool \<times> world" where
  "backup_to_jsonl report w =
     (if ledger_writable w then (True, w\<lparr>ledger := ledger w @ [Rec report]\<rparr>)
      else (False, w))"

record proc_result =
  status :: string
  backup :: bool

text \<open>
  \<^verbatim>\<open>embedding_and_save\<close>: any exception inside gives the error result without backup.
  The result of \<^verbatim>\<open>backup_to_jsonl\<close> is not looked at.
\<close>

definition embedding_and_save :: "env \<Rightarrow> document \<Rightarrow> world \<Rightarrow> proc_result \<times> document \<times> world" where
  "embedding_and_save e report w =
     (let failed = (\<lambda>report' w'. (\<lparr>status = ''error'', backup = False\<rparr>, report', w'))
      in case dict_get report ''title'' of
           None \<Rightarrow> failed report w
         | Some _ \<Rightarrow>
             (case get_stripped report ''full_content'' of
                Inl ex \<Rightarrow> failed report w
              | Inr content \<Rightarrow>
                  (case (if content \<noteq> [] then
                           (case get_or_empty report ''full_content'' of
                              PStr text \<Rightarrow>
                                (case text_embeddings_3 e text w of
                                   (Inl ex, w1) \<Rightarrow> (None, w1)
                                 | (Inr v, w1) \<Rightarrow>
                                     (Some (dict_set report ''embeddings'' (PList (map PFloat v))),
                                      w1))
                            | _ \<Rightarrow> (None, w))
                         else (Some (dict_set report ''embeddings'' (PList [])), w)) of
                     (None, w1) \<Rightarrow> failed report w1
                   | (Some report1, w1) \<Rightarrow>
                       (let w2 = snd (backup_to_jsonl report1 w1) in
                        case save_to_es e report1 (store w2) 3 of
                          (result, report2, s') \<Rightarrow>
                            (\<lparr>status =
                                (if Result result = ''Y'' then ''success''
                                 else if Result result = ''SKIP'' then ''skip''
                                 else ''error''),
                              backup = True\<rparr>,
                             report2, w2\<lparr>store := s'\<rparr>)))))"

section \<open>The pipeline driver \<^verbatim>\<open>main_process\<close>\<close>

definition get_last_crawled_title :: "world \<Rightarrow> pyval" where
  "get_last_crawled_title w =
     (case dict_get (history w) ''last_crawled_title'' of None \<Rightarrow> PNone | Some v \<Rightarrow> v)"

definition update_last_crawled_title :: "env \<Rightarrow> string \<Rightarrow> world \<Rightarrow> world" where
  "update_last_crawled_title e title w =
     w\<lparr>history :=
         dict_set (dict_set (history w) ''last_crawled_title'' (PStr title))
           ''last_crawled_time'' (PStr (isoformat (now e)))\<rparr>"

definition ledger_has_title :: "ledger_line list \<Rightarrow> string \<Rightarrow> bool" where
  "ledger_has_title ls title =
     list_ex (\<lambda>l. case l of BadLine \<Rightarrow> False
                  | Rec r \<Rightarrow> dict_get r ''title'' = Some (PStr title)) ls"

text \<open>Lines 308 to 320: the entries that carry a \<^verbatim>\<open>fact-check-reporter-\<close> class, each
  with the id cut from the first such class.\<close>

definition reporter_id :: "string list \<Rightarrow> string option" where
  "reporter_id classes =
     (case find (\<lambda>cls. startswith cls ''fact-check-reporter-'') classes of
        None \<Rightarrow> None
      | Some cls \<Rightarrow> Some (str_replace cls ''fact-check-reporter-'' []))"

fun reporter_articles :: "article list \<Rightarrow> (article \<times> string) list" where
  "reporter_articles [] = []"
| "reporter_articles (a # as) =
     (case reporter_id (art_classes a) of
        None \<Rightarrow> reporter_articles as
      | Some article_id \<Rightarrow> (a, article_id) # reporter_articles as)"

text \<open>Lines 375 to 391: label and category from the dynamic lists; a later list wins.\<close>

definition label_category :: "(string \<times> string) option list \<Rightarrow> string \<times> string" where
  "label_category links =
     fold (\<lambda>l (label, category).
             case l of
               None \<Rightarrow> (label, category)
             | Some (href, text) \<Rightarrow>
                 if contains href ''fact-check-report-classification/'' then (text, category)
                 else if contains href ''fact-check-report-type/'' then (label, text)
                 else (label, category))
       links ([], [])"

text \<open>Lines 408 to 415: the identifier of a record.\<close>

definition make_pid :: "string \<Rightarrow> string \<Rightarrow> nat \<Rightarrow> string" where
  "make_pid date article_id random_num =
     (if article_id = ''fact-check-reporter''
      then str_replace date ''-'' [] @ str_nat random_num
      else str_replace date ''-'' [] @ article_id)"

text \<open>Lines 393 to 400: the first \<^verbatim>\<open>YYYY-M-D\<close> in the text of the date element.\<close>

definition entry_date :: "article \<Rightarrow> string" where
  "entry_date article =
     (case art_date_text article of
        None \<Rightarrow> []
      | Some date_text \<Rightarrow>
          (case search_date date_text of
             None \<Rightarrow> []
           | Some (y, m, d) \<Rightarrow> y @ ''-'' @ m @ ''-'' @ d))"

definition entry_link :: "article \<Rightarrow> string" where
  "entry_link article = (case art_href article of None \<Rightarrow> [] | Some h \<Rightarrow> h)"

text \<open>Lines 370 to 427: the record from the listing entry alone.\<close>

definition entry_report :: "article \<Rightarrow> string \<Rightarrow> string \<Rightarrow> nat \<Rightarrow> document" where
  "entry_report article article_id title random_num =
     (let summary = (case art_summary article of None \<Rightarrow> [] | Some t \<Rightarrow> take 200 t);
          (label, category) = label_category (art_dynamic_links article);
          date = entry_date article;
          link = entry_link article
      in [(''title'', PStr title), (''link'', PStr link), (''date'', PStr date),
          (''label'', PStr label), (''category'', PStr category),
          (''summary'', PStr summary), (''full_content'', PStr []),
          (''pid'', PStr (make_pid date article_id random_num))])"

text \<open>Lines 444 to 502: what the detail page adds; the label only when the listing
  gave none.\<close>

definition refine_report :: "detail \<Rightarrow> document \<Rightarrow> document" where
  "refine_report det report =
     (let r1 = (if get_or_empty report ''label'' = PStr [] then
                  (case det_label det of
                     None \<Rightarrow> report
                   | Some l \<Rightarrow> dict_set report ''label'' (PStr l))
                else report);
          r2 = (case det_summary det of
                  None \<Rightarrow> r1
                | Some t \<Rightarrow> dict_set r1 ''summary'' (PStr t))
      in case det_full_content det of
           None \<Rightarrow> r2
         | Some c \<Rightarrow> dict_set r2 ''full_content'' (PStr c))"

text \<open>Lines 370 to 504: the record of an entry. It draws a random number only for the
  id \<^verbatim>\<open>fact-check-reporter\<close>.\<close>

definition build_report ::
  "env \<Rightarrow> article \<Rightarrow> string \<Rightarrow> string \<Rightarrow> world \<Rightarrow> document \<times> world" where
  "build_report e article article_id title w =
     (let random_num = 300 + randint e (draws w) mod 700;
          w' = (if article_id = ''fact-check-reporter'' then w\<lparr>draws := draws w + 1\<rparr> else w);
          report = entry_report article article_id title random_num;
          report' =
            (if entry_link article \<noteq> [] then
               (case art_detail article of
                  None \<Rightarrow> report
                | Some det \<Rightarrow> refine_report det report)
             else report)
      in (report', w'))"

text \<open>
  The run state: the counters and flags of \<^verbatim>\<open>main_process\<close>, the world, and two traces of
  what the run prints: \<open>examined\<close>, the titles printed at line 345 when an entry is looked
  at, and \<open>processed\<close>, the titles printed at line 236 when an article is handed on.
\<close>

record run_state =
  total_processed :: nat
  success_count :: nat
  skip_count :: nat
  error_count :: nat
  backup_count :: nat
  first_article_title :: "string option"
  duplicate_found :: bool
  examined :: "string list"
  processed :: "string list"
  world_of :: world

text \<open>Lines 506 to 528: one new article is counted, remembered if it is the first,
  and handed to \<^verbatim>\<open>embedding_and_save\<close>.\<close>

definition process_article ::
  "env \<Rightarrow> article \<Rightarrow> string \<Rightarrow> string \<Rightarrow> run_state \<Rightarrow> run_state" where
  "process_article e article article_id title st =
     (case build_report e article article_id title (world_of st) of
        (report, w1) \<Rightarrow>
          (case embedding_and_save e report w1 of
             (result, report', w2) \<Rightarrow>
               st\<lparr>total_processed := total_processed st + 1,
                  first_article_title :=
                    (case first_article_title st of None \<Rightarrow> Some title | Some t \<Rightarrow> Some t),
                  success_count :=
                    (if status result = ''success'' then success_count st + 1
                     else success_count st),
                  skip_count :=
                    (if status result \<noteq> ''success'' \<and> status result = ''skip''
                     then skip_count st + 1 else skip_count st),
                  error_count :=
                    (if status result \<noteq> ''success'' \<and> status result \<noteq> ''skip''
                     then error_count st + 1 else error_count st),
                  backup_count :=
                    (if backup result then backup_count st + 1 else backup_count st),
                  processed := processed st @ [title],
                  world_of := w2\<rparr>))"

text \<open>The loop over the entries of a page (lines 325 to 532).\<close>

fun process_entries :: "env \<Rightarrow> pyval \<Rightarrow> (article \<times> string) list \<Rightarrow> run_state \<Rightarrow> run_state" where
  "process_entries e last_crawled_title [] st = st"
| "process_entries e last_crawled_title ((article, article_id) # rest) st =
     (if duplicate_found st then st
      else
        (case art_title article of
           None \<Rightarrow> process_entries e last_crawled_title rest st
         | Some title \<Rightarrow>
             if title = [] then process_entries e last_crawled_title rest st
             else
               (let st1 = st\<lparr>examined := examined st @ [title]\<rparr> in
                if ledger_has_title (ledger (world_of st1)) title
                then process_entries e last_crawled_title rest st1
                else if truthy last_crawled_title \<and> PStr title = last_crawled_title
                then st1\<lparr>duplicate_found := True\<rparr>
                else process_entries e last_crawled_title rest
                       (process_article e article article_id title st1))))"

text \<open>
  The loop over the pages (lines 288 to 542). A failed fetch raises out of the run; the
  state reached so far is kept beside the exception.
\<close>

function crawl_pages ::
  "env \<Rightarrow> nat \<Rightarrow> pyval \<Rightarrow> nat \<Rightarrow> run_state \<Rightarrow> (py_exn \<times> run_state) + run_state" where
  "crawl_pages e max_pages last_crawled_title page st =
     (if \<not> duplicate_found st \<and> page \<le> max_pages then
        (case fetch_page e page of
           FetchFailed \<Rightarrow> Inl (HTTPError, st)
         | Page articles has_next \<Rightarrow>
             if articles = [] then Inr st
             else
               (let st' = process_entries e last_crawled_title (reporter_articles articles) st
                in if \<not> duplicate_found st' then
                     (if \<not> has_next then Inr st'
                      else crawl_pages e max_pages last_crawled_title (page + 1) st')
                   else Inr st'))
      else Inr st)"
  by pat_completeness auto
termination
  by (relation "measure (\<lambda>(e, max_pages, last_crawled_title, page, st). max_pages + 1 - page)")
    auto

declare crawl_pages.simps [simp del]

record run_stats =
  st_total :: nat
  st_success :: nat
  st_skip :: nat
  st_error :: nat
  st_backup :: nat

definition initial_state :: "world \<Rightarrow> run_state" where
  "initial_state w =
     \<lparr>total_processed = 0, success_count = 0, skip_count = 0, error_count = 0,
      backup_count = 0, first_article_title = None, duplicate_found = False,
      examined = [], processed = [], world_of = w\<rparr>"

definition main_process :: "env \<Rightarrow> world \<Rightarrow> nat \<Rightarrow> (py_exn + run_stats) \<times> world" where
  "main_process e w max_pages =
     (let last_crawled_title = get_last_crawled_title w in
      case crawl_pages e max_pages last_crawled_title 1 (initial_state w) of
        Inl (ex, st) \<Rightarrow> (Inl ex, world_of st)
      | Inr st \<Rightarrow>
          (let w' = (case first_article_title st of
                       None \<Rightarrow> world_of st
                     | Some first \<Rightarrow>
                         if total_processed st > 0 \<and> \<not> duplicate_found st
                         then update_last_crawled_title e first (world_of st)
                         else world_of st)
           in (Inr \<lparr>st_total = total_processed st, st_success = success_count st,
                    st_skip = skip_count st, st_error = error_count st,
                    st_backup = backup_count st\<rparr>, w')))"

section \<open>Vocabulary of the properties\<close>

text \<open>A value holds a null at some nesting level.\<close>

fun has_null :: "pyval \<Rightarrow> bool" where
  "has_null PNone = True"
| "has_null (PList xs) = list_ex has_null xs"
| "has_null (PTuple xs) = list_ex has_null xs"
| "has_null (PDict kvs) = list_ex (\<lambda>kv. has_null (snd kv)) kvs"
| "has_null _ = False"

text \<open>The documents of an index, and the field names an upload finds known there (a
  missing index is created with the fixed mapping first).\<close>

definition docs_of :: "es_store \<Rightarrow> string \<Rightarrow> stored_doc list" where
  "docs_of s index = (case indices s index of None \<Rightarrow> [] | Some ix \<Rightarrow> idx_docs ix)"

definition known_fields :: "es_store \<Rightarrow> string \<Rightarrow> string list" where
  "known_fields s index =
     (case indices s index of None \<Rightarrow> initial_mapping | Some ix \<Rightarrow> idx_fields ix)"




text \<open>The date as \<^verbatim>\<open>%Y-%m-%d\<close> and as \<^verbatim>\<open>%Y%m%d\<close> print it, and the dates with a year
  of four digits.\<close>

definition iso_date :: "datetime \<Rightarrow> string" where
  "iso_date dt = str_nat (dt_year dt) @ ''-'' @ zfill 2 (str_nat (dt_month dt)) @
     ''-'' @ zfill 2 (str_nat (dt_day dt))"

definition compact_date :: "datetime \<Rightarrow> string" where
  "compact_date dt = str_nat (dt_year dt) @ zfill 2 (str_nat (dt_month dt)) @
     zfill 2 (str_nat (dt_day dt))"

definition valid_date :: "datetime \<Rightarrow> bool" where
  "valid_date dt = (1000 \<le> dt_year dt \<and> dt_year dt \<le> 9999 \<and> 1 \<le> dt_month dt \<and>
     dt_month dt \<le> 12 \<and> 1 \<le> dt_day dt \<and> dt_day dt \<le> 31)"

text \<open>The result of the retry loop when its last pass reaches the upload step.\<close>

definition last_upload ::
  "env \<Rightarrow> nat \<Rightarrow> document \<Rightarrow> es_store \<Rightarrow> es_result \<times> document \<times> es_store" where
  "last_upload e max_retries data s =
     (case upload_step e max_retries (max_retries - 1) data s of
        (Return r, data', s') \<Rightarrow> (r, data', s')
      | (Retry, data', s') \<Rightarrow> (result_N ''Unexpected error in save_to_es'', data', s'))"

text \<open>
  A document has a date that is not blank. From store \<open>s\<close> to store \<open>s'\<close> every document
  that is new or rewritten satisfies \<open>P\<close>.
\<close>

definition has_date :: "document \<Rightarrow> bool" where
  "has_date d = (case dict_get d ''date'' of Some (PStr ds) \<Rightarrow> strip ds \<noteq> [] | _ \<Rightarrow> False)"

definition writes_only :: "(document \<Rightarrow> bool) \<Rightarrow> es_store \<Rightarrow> es_store \<Rightarrow> bool" where
  "writes_only P s s' =
     (\<forall>index. \<forall>d \<in> set (docs_of s' index). d \<in> set (docs_of s index) \<or> P (doc_source d))"

text \<open>The counter and the remembered first title agree with the trace of processed
  titles.\<close>

definition counted :: "run_state \<Rightarrow> bool" where
  "counted st =
     (total_processed st = length (processed st) \<and>
      first_article_title st = (case processed st of [] \<Rightarrow> None | t # _ \<Rightarrow> Some t))"

text \<open>
  The entries the driver iterates over on page \<open>p\<close>, the listing of the pages \<open>p\<close> to \<open>n\<close>
  in iteration order, and what it takes for the driver to get through these pages: each
  is fetched and has entries, and each before the last has a next-page button.
\<close>

definition page_entries :: "env \<Rightarrow> nat \<Rightarrow> (article \<times> string) list" where
  "page_entries e p =
     (case fetch_page e p of FetchFailed \<Rightarrow> [] | Page articles _ \<Rightarrow> reporter_articles articles)"

definition listing :: "env \<Rightarrow> nat \<Rightarrow> nat \<Rightarrow> (article \<times> string) list" where
  "listing e p n = concat (map (page_entries e) [p..<Suc n])"

definition served :: "env \<Rightarrow> nat \<Rightarrow> nat \<Rightarrow> bool" where
  "served e p n =
     list_all (\<lambda>q. case fetch_page e q of
                     FetchFailed \<Rightarrow> False
                   | Page articles has_next \<Rightarrow> articles \<noteq> [] \<and> (q < n \<longrightarrow> has_next))
       [p..<Suc n]"

section \<open>Concrete inputs\<close>

definition dt0 :: datetime where
  "dt0 = \<lparr>dt_year = 2024, dt_month = 3, dt_day = 20, dt_hour = 0, dt_minute = 0, dt_second = 0,
           dt_microsecond = 0\<rparr>"

definition env0 :: env where
  "env0 =
     \<lparr>strptime = (\<lambda>s fmt. if s = ''2024/03/20'' \<and> fmt = ''%Y/%m/%d'' then Some dt0 else None),
      now = dt0,
      md5_hexdigest = (\<lambda>t. if t = ''AA'' then ''3b98e2dffc6cb06a89dcb0d5c60a0206''
                            else if t = ''X'' then ''02129bb861061d1a052c592e2dc6b383''
                            else if t = ''C'' then ''0d61f8370cad1d412f80b84d143e1257''
                            else if t = ''B'' then ''9d5ed678fe57bcca610140957afab571''
                            else if t = ''A'' then ''7fc56270e7a70fa81a5935b72eacbe29''
                            else if t = ''T'' then ''b9ece18c950afbfa6b0fdbfa4ff731d3''
                            else ''d41d8cd98f00b204e9800998ecf8427e''),
      randint = (\<lambda>n. 0),
      encode = (\<lambda>s. map of_char s),
      decode = (\<lambda>ts. map char_of ts),
      embeddings_create = (\<lambda>t. Some []),
      match_phrase = (\<lambda>t d. dict_get d ''title'' = Some t),
      term_match = (\<lambda>p d. dict_get d ''pid'' = Some p),
      fetch_page = (\<lambda>p. Page [] False),
      py_repr = (\<lambda>v. [])\<rparr>"

definition store0 :: es_store where
  "store0 = \<lparr>indices = Map.empty, next_id = 0, faults = []\<rparr>"

definition world0 :: world where
  "world0 = \<lparr>history = [], ledger = [], ledger_writable = True, store = store0,
              provider_calls = [], draws = 0\<rparr>"

definition doc_nested :: document where
  "doc_nested = [(''pid'', PStr ''p1''), (''tags'', PDict [(''inner'', PList [PNone])])]"

definition doc_extra :: document where
  "doc_extra = [(''pid'', PStr ''p1''), (''title'', PStr ''t''), (''extra_field'', PInt 3)]"

definition store_pid_title :: es_store where
  "store_pid_title =
     store0\<lparr>indices := [''idx'' \<mapsto> \<lparr>idx_fields = [''pid'', ''title''], idx_docs = []\<rparr>]\<rparr>"

definition doc_timed :: document where
  "doc_timed = [(''pid'', PStr ''p1''), (''total_processing_time'', PInt 3)]"


definition report_blank :: document where
  "report_blank = [(''title'', PStr ''T''), (''date'', PStr ''2024-03-20''),
                   (''full_content'', PStr ''  ''), (''pid'', PStr ''2024032011'')]"

definition long_text :: string where
  "long_text = replicate 8001 (CHR ''a'')"

definition record_x :: document where
  "record_x = [(''title'', PStr ''X''), (''date'', PStr ''2024-03-20''),
               (''pid'', PStr ''2024032011'')]"

definition store_x :: es_store where
  "store_x =
     store0\<lparr>indices := [index_name \<mapsto>
       \<lparr>idx_fields = [''pid'', ''title''],
        idx_docs = [\<lparr>doc_id = 7, doc_version = 1,
                     doc_source = [(''title'', PStr ''X''), (''pid'', PStr ''2023010155'')]\<rparr>]\<rparr>]\<rparr>"



definition record_nodate :: document where
  "record_nodate = [(''title'', PStr ''AA''), (''date'', PStr '' '')]"

definition store_down :: es_store where
  "store_down = store0\<lparr>faults := [True, True, True]\<rparr>"





section \<open>Basic facts\<close>

lemma es_call_no_faults: "faults s = [] \<Longrightarrow> es_call s = (False, s)"
  by (simp add: es_call_def)

lemma clean_document_keys:
  "dict_keys (clean_document e doc) =
     filter (\<lambda>k. k \<notin> set time_fields_to_exclude) (dict_keys doc)"
  by (induction doc) (auto simp: dict_keys_def)

lemma dict_get_clean_document:
  "dict_get (clean_document e doc) k =
     (if k \<in> set time_fields_to_exclude then None
      else map_option (clean_value e k) (dict_get doc k))"
  by (induction doc) (auto simp: dict_get_def)

lemma pid_not_time_field: "''pid'' \<notin> set time_fields_to_exclude"
  by (simp add: time_fields_to_exclude_def)

lemma clean_document_has_pid:
  "dict_has doc ''pid'' \<Longrightarrow> dict_has (clean_document e doc) ''pid''"
  using clean_document_keys [of e doc] pid_not_time_field
  by (simp add: dict_has_def dict_keys_def)

lemma dict_get_filter:
  "dict_has d k \<Longrightarrow> k \<in> A \<Longrightarrow> \<exists>v. dict_get (filter (\<lambda>(k, v). k \<in> A) d) k = Some v"
  by (induction d) (auto simp: dict_has_def dict_get_def)

lemma dict_get_has: "dict_has d k \<Longrightarrow> \<exists>v. dict_get d k = Some v"
  by (induction d) (auto simp: dict_has_def dict_get_def)

lemma replace_doc_mem:
  "find (\<lambda>d. doc_id d = i) ds = Some d0 \<Longrightarrow>
   \<exists>d \<in> set (replace_doc ds i src). doc_id d = i \<and> doc_source d = src"
  by (induction ds) (auto split: if_splits)

section \<open>Digits and printed dates\<close>

lemma of_char_digit_char: "(of_char (digit_char n) :: nat) = 48 + n mod 10"
proof -
  have "n mod 10 < 10" by simp
  then have "(48 + n mod 10) mod 256 = 48 + n mod 10" by simp
  then show ?thesis by (simp add: digit_char_def)
qed

lemma is_digit_digit_char: "is_digit (digit_char n)"
  by (simp add: is_digit_def of_char_digit_char)

lemma digit_char_not_hyphen: "digit_char n \<noteq> CHR ''-''"
proof
  assume "digit_char n = CHR ''-''"
  then have "(of_char (digit_char n) :: nat) = of_char (CHR ''-'')" by simp
  then show False by (simp add: of_char_digit_char)
qed

lemma digit_char_not_space: "\<not> py_isspace (digit_char n)"
proof -
  have "n mod 10 < 10" by simp
  then have "n mod 10 \<noteq> 85 \<and> n mod 10 \<noteq> 112" by arith
  then show ?thesis by (simp add: py_isspace_def of_char_digit_char)
qed

lemma digit_char_0: "digit_char 0 = CHR ''0''"
  by code_simp

lemma digit_char_mod: "digit_char (n mod 10) = digit_char n"
  by (simp add: digit_char_def)

lemma str_nat_lt10: "n < 10 \<Longrightarrow> str_nat n = [digit_char n]"
  by (simp add: str_nat.simps)

lemma str_nat_lt100: "10 \<le> n \<Longrightarrow> n < 100 \<Longrightarrow> str_nat n = [digit_char (n div 10), digit_char n]"
  by (subst str_nat.simps) (simp add: str_nat_lt10 digit_char_mod)

lemma str_nat_lt1000:
  "100 \<le> n \<Longrightarrow> n < 1000 \<Longrightarrow>
   str_nat n = [digit_char (n div 100), digit_char (n div 10), digit_char n]"
  by (subst str_nat.simps) (simp add: str_nat_lt100 digit_char_mod div_mult2_eq [symmetric])

lemma str_nat_lt10000:
  "1000 \<le> n \<Longrightarrow> n < 10000 \<Longrightarrow>
   str_nat n = [digit_char (n div 1000), digit_char (n div 100), digit_char (n div 10),
                digit_char n]"
  by (subst str_nat.simps) (simp add: str_nat_lt1000 digit_char_mod div_mult2_eq [symmetric])

lemma zfill2: "n < 100 \<Longrightarrow> zfill 2 (str_nat n) = [digit_char (n div 10), digit_char n]"
proof (cases "n < 10")
  case True
  then have "str_nat n = [digit_char n]" by (rule str_nat_lt10)
  moreover from True have "n div 10 = 0" by simp
  ultimately show ?thesis by (simp add: zfill_def digit_char_0)
next
  case False
  assume "n < 100"
  with False have "str_nat n = [digit_char (n div 10), digit_char n]"
    by (intro str_nat_lt100) simp_all
  then show ?thesis by (simp add: zfill_def)
qed

lemma replicate_zeros:
  "replicate (Suc 0) c = [c]" "replicate 2 c = [c, c]" "replicate 3 c = [c, c, c]"
  by (simp_all add: numeral_2_eq_2 numeral_3_eq_3)


lemma zfill4:
  assumes "n < 10000"
  shows "zfill 4 (str_nat n) =
     [digit_char (n div 1000), digit_char (n div 100), digit_char (n div 10), digit_char n]"
proof -
  consider "n < 10" | "10 \<le> n" "n < 100" | "100 \<le> n" "n < 1000" | "1000 \<le> n" by linarith
  then show ?thesis
  proof cases
    case 1
    then have "str_nat n = [digit_char n]" by (rule str_nat_lt10)
    moreover from 1 have "n div 1000 = 0" "n div 100 = 0" "n div 10 = 0" by simp_all
    ultimately show ?thesis by (simp add: zfill_def digit_char_0 replicate_zeros)
  next
    case 2
    then have "str_nat n = [digit_char (n div 10), digit_char n]" by (rule str_nat_lt100)
    moreover from 2 have "n div 1000 = 0" "n div 100 = 0" by simp_all
    ultimately show ?thesis by (simp add: zfill_def digit_char_0 replicate_zeros)
  next
    case 3
    then have "str_nat n = [digit_char (n div 100), digit_char (n div 10), digit_char n]"
      by (rule str_nat_lt1000)
    moreover from 3 have "n div 1000 = 0" by simp
    ultimately show ?thesis by (simp add: zfill_def digit_char_0 replicate_zeros)
  next
    case 4
    with assms have "str_nat n =
      [digit_char (n div 1000), digit_char (n div 100), digit_char (n div 10), digit_char n]"
      by (intro str_nat_lt10000)
    then show ?thesis by (simp add: zfill_def)
  qed
qed

lemma zfill_not_empty: "0 < w \<Longrightarrow> zfill w s \<noteq> []"
  by (cases s) (simp_all add: zfill_def)

lemma str_nat_not_empty: "str_nat n \<noteq> []"
  by (subst str_nat.simps) simp


lemma strip_empty_iff: "strip s = [] \<longleftrightarrow> (\<forall>c \<in> set s. py_isspace c)"
proof
  assume "strip s = []"
  then have "dropWhile py_isspace (rev (dropWhile py_isspace s)) = []"
    by (simp add: strip_def)
  then have a: "\<forall>c \<in> set (dropWhile py_isspace s). py_isspace c"
    by simp
  have "dropWhile py_isspace s = []"
  proof (rule ccontr)
    assume n: "dropWhile py_isspace s \<noteq> []"
    then have "\<not> py_isspace (hd (dropWhile py_isspace s))" by (rule hd_dropWhile)
    moreover from n have "hd (dropWhile py_isspace s) \<in> set (dropWhile py_isspace s)" by simp
    ultimately show False using a by blast
  qed
  then show "\<forall>c \<in> set s. py_isspace c" by simp
next
  assume "\<forall>c \<in> set s. py_isspace c"
  then have d: "dropWhile py_isspace s = []" by simp
  show "strip s = []" unfolding strip_def d by simp
qed

lemma strftime_date: "strftime dt ''%Y-%m-%d'' = iso_date dt"
  by (simp add: iso_date_def directive_def)

lemma strftime_compact: "strftime dt ''%Y%m%d'' = compact_date dt"
  by (simp add: compact_date_def directive_def)

lemma strip_iso_date: "strip (iso_date dt) \<noteq> []"
proof -
  have "CHR ''-'' \<in> set (iso_date dt)" by (simp add: iso_date_def)
  moreover have "\<not> py_isspace (CHR ''-'')" by (simp add: py_isspace_def)
  ultimately show ?thesis unfolding strip_empty_iff by blast
qed

lemma compact_date_not_empty: "compact_date dt \<noteq> []"
  by (simp add: compact_date_def str_nat_not_empty)

lemma search_date_iso:
  assumes "valid_date dt"
  shows "search_date (iso_date dt) =
    Some (str_nat (dt_year dt), zfill 2 (str_nat (dt_month dt)),
          zfill 2 (str_nat (dt_day dt)))"
proof -
  from assms have y: "1000 \<le> dt_year dt" "dt_year dt < 10000"
    and m: "dt_month dt < 100" and d: "dt_day dt < 100"
    by (simp_all add: valid_date_def)
  show ?thesis
    by (simp add: iso_date_def str_nat_lt10000 [OF y] zfill2 [OF m] zfill2 [OF d]
        match_date_here_def take_digits_def is_digit_digit_char Let_def)
qed

lemma match_date_here_year: "match_date_here s = Some (y, m, d) \<Longrightarrow> length y = 4"
  by (auto simp: match_date_here_def Let_def split: if_splits list.splits)

lemma search_date_year: "search_date s = Some (y, m, d) \<Longrightarrow> length y = 4"
  by (induction s) (auto split: option.splits dest: match_date_here_year)

section \<open>Sanitizing (\<^verbatim>\<open>upload_single_document\<close>, lines 102 to 148)\<close>

text \<open>
  C3. The sanitize loop replaces a null only at the top level and one level below (an
  element of a list, a value of a mapping). In the document \<open>doc_nested\<close> the null sits
  inside a list inside a mapping, and it is still there after the loop.
\<close>

theorem sanitize_keeps_nested_null:
  "clean_document env0 doc_nested = doc_nested \<and>
   list_ex (\<lambda>kv. has_null (snd kv)) (clean_document env0 doc_nested)"
  by (simp add: doc_nested_def time_fields_to_exclude_def clean_value_def none_to_empty_def)

text \<open>What the loop does reach: after it no field is null, no element of a list field and
  no value of a mapping field.\<close>

lemma none_to_empty_not_null: "none_to_empty v \<noteq> PNone" "PNone \<noteq> none_to_empty v"
  by (cases v; simp add: none_to_empty_def)+

lemma clean_value_one_level:
  "clean_value e key val \<noteq> PNone \<and>
   (\<forall>xs. clean_value e key val = PList xs \<longrightarrow> PNone \<notin> set xs) \<and>
   (\<forall>xs. clean_value e key val \<noteq> PTuple xs) \<and>
   (\<forall>kvs. clean_value e key val = PDict kvs \<longrightarrow> PNone \<notin> snd ` set kvs)"
  by (cases val) (auto simp: clean_value_def none_to_empty_not_null split: option.splits)

section \<open>Date normalization (\<^verbatim>\<open>_format_date\<close>)\<close>











section \<open>Field filtering (\<^verbatim>\<open>upload_single_document\<close>, lines 177 to 192)\<close>

lemma es_index_doc_written:
  assumes "faults s = []" and "indices s index = Some ix"
    and "es_index_doc s index ident src = (res, s')"
  shows "\<exists>resp ix' d. res = Inr resp \<and> faults s' = [] \<and> indices s' index = Some ix' \<and>
           d \<in> set (idx_docs ix') \<and> doc_id d = resp_id resp \<and> doc_source d = src"
proof (cases ident)
  case None
  with assms show ?thesis
    by (force simp: es_index_doc_def es_call_no_faults)
next
  case (Some i)
  show ?thesis
  proof (cases "find (\<lambda>d. doc_id d = i) (idx_docs ix)")
    case None
    with assms Some show ?thesis
      by (force simp: es_index_doc_def es_call_no_faults)
  next
    case (Some d0)
    from replace_doc_mem [OF Some, of src] obtain d where
      "d \<in> set (replace_doc (idx_docs ix) i src)" "doc_id d = i" "doc_source d = src"
      by blast
    with assms Some \<open>ident = Some i\<close> show ?thesis
      by (force simp: es_index_doc_def es_call_no_faults)
  qed
qed

text \<open>An upload whose store calls all succeed: the result is \<^verbatim>\<open>Y\<close>, the filtered
  document is in the index under the returned id, and the dropped names are reported.\<close>

lemma upload_cleaned_ok:
  assumes nf: "faults s = []"
    and pid: "dict_has cleaned ''pid''"
    and known: "strict \<longrightarrow> ''pid'' \<in> set (known_fields s index)"
    and run: "upload_cleaned e s cleaned index strict = (res, s')"
  shows "\<exists>r rd d. res = Inr r \<and> Result r = ''Y'' \<and> ResultData r = Some rd \<and>
           faults s' = [] \<and> d \<in> set (docs_of s' index) \<and> doc_id d = document_id rd \<and>
           doc_source d =
             (if strict then filter (\<lambda>(k, v). k \<in> set (known_fields s index)) cleaned
              else cleaned) \<and>
           ignored_fields rd =
             (let ign = (if strict
                         then filter (\<lambda>k. k \<notin> set (known_fields s index)) (dict_keys cleaned)
                         else [])
              in if ign = [] then None else Some ign)"
proof -
  define s2 where "s2 = (case indices s index of
      None \<Rightarrow> s\<lparr>indices := (indices s)(index \<mapsto>
                 \<lparr>idx_fields = initial_mapping, idx_docs = []\<rparr>)\<rparr>
    | Some _ \<Rightarrow> s)"
  have s2_nf: "faults s2 = []"
    using nf by (simp add: s2_def split: option.splits)
  have "\<exists>ix2. indices s2 index = Some ix2 \<and> idx_fields ix2 = known_fields s index"
    by (cases "indices s index") (simp_all add: s2_def known_fields_def)
  then obtain ix2 where
    ix2: "indices s2 index = Some ix2" "idx_fields ix2 = known_fields s index"
    by blast
  define filtered where "filtered =
    (if strict then filter (\<lambda>(k, v). k \<in> set (known_fields s index)) cleaned else cleaned)"
  have "\<exists>p. dict_get filtered ''pid'' = Some p"
  proof (cases strict)
    case True
    with pid known show ?thesis
      using dict_get_filter [of cleaned "''pid''" "set (known_fields s index)"]
      by (simp add: filtered_def)
  next
    case False
    with pid show ?thesis
      using dict_get_has [of cleaned "''pid''"] by (simp add: filtered_def)
  qed
  then obtain p where p: "dict_get filtered ''pid'' = Some p" by blast
  define hits where "hits = filter (\<lambda>d. term_match e p (doc_source d)) (idx_docs ix2)"
  define ident where "ident = (case hits of [] \<Rightarrow> None | h # _ \<Rightarrow> Some (doc_id h))"
  obtain wr s5 where wr: "es_index_doc s2 index ident filtered = (wr, s5)"
    by (cases "es_index_doc s2 index ident filtered") auto
  from es_index_doc_written [OF s2_nf ix2(1) wr] obtain resp ix' d where
    w: "wr = Inr resp" "faults s5 = []" "indices s5 index = Some ix'"
       "d \<in> set (idx_docs ix')" "doc_id d = resp_id resp" "doc_source d = filtered"
    by blast
  have pre: "andthen (indices_exists s index) (\<lambda>ex s1.
       andthen (if ex then (Inr (), s1) else indices_create s1 index initial_mapping) F)
     = F () s2" for F :: "unit \<Rightarrow> es_store \<Rightarrow> (py_exn + es_result) \<times> es_store"
    using nf by (auto simp: andthen_def indices_exists_def indices_create_def
        es_call_no_faults s2_def split: option.splits)
  have gf: "get_index_fields s2 index = (known_fields s index, s2)"
    using s2_nf ix2
    by (simp add: get_index_fields_def indices_get_mapping_def es_call_no_faults)
  have srch: "es_search s2 index (term_match e p) = (Inr hits, s2)"
    using s2_nf ix2 by (simp add: es_search_def es_call_no_faults hits_def)
  have rf: "indices_refresh s5 index = (Inr (), s5)"
    using w by (simp add: indices_refresh_def es_call_no_faults)
  have d: "d \<in> set (docs_of s5 index)"
    using w by (simp add: docs_of_def)
  show ?thesis
    using run w wr p d
    unfolding upload_cleaned_def pre
    by (cases hits)
      (auto simp: gf srch rf andthen_def filtered_def ident_def Let_def split: if_splits)
qed

text \<open>The same for \<^verbatim>\<open>upload_single_document\<close>, sanitize loop included.\<close>

lemma upload_ok:
  assumes "doc \<noteq> []" and "dict_has doc ''pid''" and "faults s = []"
    and "strict \<longrightarrow> ''pid'' \<in> set (known_fields s index)"
    and "upload_single_document e s doc index strict = (r, s')"
  shows "Result r = ''Y'' \<and>
         dict_keys (clean_document e doc) =
           filter (\<lambda>k. k \<notin> set time_fields_to_exclude) (dict_keys doc) \<and>
         (\<exists>rd d. ResultData r = Some rd \<and> d \<in> set (docs_of s' index) \<and>
            doc_id d = document_id rd \<and>
            doc_source d =
              (if strict
               then filter (\<lambda>(k, v). k \<in> set (known_fields s index)) (clean_document e doc)
               else clean_document e doc) \<and>
            ignored_fields rd =
              (let ign = (if strict
                          then filter (\<lambda>k. k \<notin> set (known_fields s index))
                                 (dict_keys (clean_document e doc))
                          else [])
               in if ign = [] then None else Some ign))"
proof -
  obtain res s1 where u: "upload_cleaned e s (clean_document e doc) index strict = (res, s1)"
    by (cases "upload_cleaned e s (clean_document e doc) index strict") auto
  from upload_cleaned_ok [OF assms(3) clean_document_has_pid [OF assms(2)] assms(4) u]
  obtain r1 rd d where
    r1: "res = Inr r1" "Result r1 = ''Y''" "ResultData r1 = Some rd"
      "d \<in> set (docs_of s1 index)" "doc_id d = document_id rd"
      "doc_source d =
         (if strict
          then filter (\<lambda>(k, v). k \<in> set (known_fields s index)) (clean_document e doc)
          else clean_document e doc)"
      "ignored_fields rd =
         (let ign = (if strict
                     then filter (\<lambda>k. k \<notin> set (known_fields s index))
                            (dict_keys (clean_document e doc))
                     else [])
          in if ign = [] then None else Some ign)"
    by blast
  from assms(1,2,5) u r1(1) have "r = r1" "s' = s1"
    by (simp_all add: upload_single_document_def)
  with r1 clean_document_keys [of e doc] show ?thesis by blast
qed

text \<open>
  C5, as the code has it. The sanitize loop removes the five time-measurement fields in
  both modes and does not report them. For a document that is not empty and has a
  \<^verbatim>\<open>pid\<close>, when no store call fails and (in strict mode) \<^verbatim>\<open>pid\<close> is among the fields the
  index knows: the result is \<^verbatim>\<open>Y\<close>; with \<^verbatim>\<open>strict_fields\<close> the stored document is the
  cleaned one restricted to the known fields and the result lists exactly the other
  cleaned fields as ignored; without it the stored document is the cleaned one, whole,
  and nothing is listed.
\<close>

theorem upload_field_filtering:
  assumes "doc \<noteq> []" and "dict_has doc ''pid''" and "faults s = []"
    and "strict \<longrightarrow> ''pid'' \<in> set (known_fields s index)"
    and "upload_single_document e s doc index strict = (r, s')"
  shows "Result r = ''Y'' \<and>
         dict_keys (clean_document e doc) =
           filter (\<lambda>k. k \<notin> set time_fields_to_exclude) (dict_keys doc) \<and>
         (\<exists>rd d. ResultData r = Some rd \<and> d \<in> set (docs_of s' index) \<and>
            doc_id d = document_id rd \<and>
            doc_source d =
              (if strict
               then filter (\<lambda>(k, v). k \<in> set (known_fields s index)) (clean_document e doc)
               else clean_document e doc) \<and>
            ignored_fields rd =
              (let ign = (if strict
                          then filter (\<lambda>k. k \<notin> set (known_fields s index))
                                 (dict_keys (clean_document e doc))
                          else [])
               in if ign = [] then None else Some ign))"
  using assms by (rule upload_ok)

theorem upload_field_filtering_witness:
  "Result (fst (upload_single_document env0 store_pid_title doc_extra ''idx'' True)) = ''Y'' \<and>
   map doc_source
     (docs_of (snd (upload_single_document env0 store_pid_title doc_extra ''idx'' True)) ''idx'')
     = [[(''pid'', PStr ''p1''), (''title'', PStr ''t'')]] \<and>
   map_option ignored_fields
     (ResultData (fst (upload_single_document env0 store_pid_title doc_extra ''idx'' True)))
     = Some (Some [''extra_field''])"
proof -
  obtain r s' where u: "upload_single_document env0 store_pid_title doc_extra ''idx'' True = (r, s')"
    by (cases "upload_single_document env0 store_pid_title doc_extra ''idx'' True") auto
  have h: "doc_extra \<noteq> []" "dict_has doc_extra ''pid''" "faults store_pid_title = []"
    "True \<longrightarrow> ''pid'' \<in> set (known_fields store_pid_title ''idx'')"
    by (simp_all add: doc_extra_def dict_has_def store_pid_title_def store0_def known_fields_def)
  have k: "known_fields store_pid_title ''idx'' = [''pid'', ''title'']"
    by (simp add: store_pid_title_def store0_def known_fields_def)
  have c: "clean_document env0 doc_extra = doc_extra"
    by (simp add: doc_extra_def time_fields_to_exclude_def clean_value_def)
  have f: "filter (\<lambda>(k, v). k \<in> set [''pid'', ''title'']) doc_extra =
      [(''pid'', PStr ''p1''), (''title'', PStr ''t'')]"
    by (simp add: doc_extra_def)
  have g: "filter (\<lambda>k. k \<notin> set [''pid'', ''title'']) (dict_keys doc_extra) = [''extra_field'']"
    by (simp add: doc_extra_def dict_keys_def)
  note t = upload_field_filtering [OF h u, unfolded k c if_True f g]
  from t have y: "Result r = ''Y''" by blast
  from t obtain rd where rd: "ResultData r = Some rd"
    and ign: "ignored_fields rd = Some [''extra_field'']"
    by auto
  have "map doc_source (docs_of s' ''idx'') = [[(''pid'', PStr ''p1''), (''title'', PStr ''t'')]]"
    using u
    by (auto simp add: upload_single_document_def upload_cleaned_def andthen_def
        indices_exists_def indices_create_def get_index_fields_def indices_get_mapping_def
        es_search_def es_index_doc_def indices_refresh_def es_call_def docs_of_def
        store_pid_title_def store0_def doc_extra_def dict_has_def dict_get_def env0_def
        dict_keys_def time_fields_to_exclude_def clean_value_def)
  with u y rd ign show ?thesis by simp
qed

text \<open>
  The claim as stated fails without \<^verbatim>\<open>strict_fields\<close>: the input \<open>doc_timed\<close> has the field
  \<^verbatim>\<open>total_processing_time\<close>, the upload succeeds, and the stored document has lost it.
\<close>

theorem upload_drops_time_field:
  "dict_has doc_timed ''total_processing_time'' \<and>
   Result (fst (upload_single_document env0 store0 doc_timed ''idx'' False)) = ''Y'' \<and>
   map doc_source
     (docs_of (snd (upload_single_document env0 store0 doc_timed ''idx'' False)) ''idx'')
     = [[(''pid'', PStr ''p1'')]]"
  by (simp add: upload_single_document_def upload_cleaned_def andthen_def
      indices_exists_def indices_create_def get_index_fields_def indices_get_mapping_def
      es_search_def es_index_doc_def indices_refresh_def es_call_def docs_of_def
      store0_def doc_timed_def dict_has_def dict_get_def env0_def dict_keys_def
      time_fields_to_exclude_def clean_value_def initial_mapping_def)

section \<open>What \<^verbatim>\<open>save_to_es\<close> changes in the record\<close>

lemma dict_get_dict_set:
  "dict_get (dict_set d k v) k' = (if k' = k then Some v else dict_get d k')"
  by (induction d) (auto simp: dict_get_def)

lemma ensure_date_keeps:
  "ensure_date e data = Inr data1 \<Longrightarrow> k \<noteq> ''date'' \<Longrightarrow> dict_get data1 k = dict_get data k"
  by (auto simp: ensure_date_def dict_get_dict_set split: sum.splits if_splits)

lemma generate_pid_keeps:
  "generate_pid e data = Inr data2 \<Longrightarrow> k \<noteq> ''pid'' \<Longrightarrow> dict_get data2 k = dict_get data k"
  by (auto simp: generate_pid_def Let_def dict_get_dict_set
      split: sum.splits if_splits pyval.splits)

lemma ensure_pid_keeps:
  "ensure_pid e data = Inr data2 \<Longrightarrow> k \<noteq> ''pid'' \<Longrightarrow> dict_get data2 k = dict_get data k"
  by (auto simp: ensure_pid_def generate_pid_keeps split: option.splits if_splits)

lemma upload_step_data: "upload_step e m a data s = (out, data', s') \<Longrightarrow> data' = data"
  by (auto simp: upload_step_def split: prod.splits if_splits)

lemma save_attempt_data:
  assumes "save_attempt e m a data s = (out, data', s')"
  shows "data' = data \<or>
         (\<exists>data1. ensure_date e data = Inr data1 \<and>
            (data' = data1 \<or> (\<exists>data2. ensure_pid e data1 = Inr data2 \<and> data' = data2)))"
  using assms
  by (auto simp: save_attempt_def Let_def
      split: sum.splits if_splits prod.splits list.splits dest: upload_step_data)

lemma save_attempt_keeps:
  assumes "save_attempt e m a data s = (out, data', s')"
    and "k \<noteq> ''date''" and "k \<noteq> ''pid''"
  shows "dict_get data' k = dict_get data k"
  using save_attempt_data [OF assms(1)] assms(2,3)
  by (auto simp: ensure_date_keeps ensure_pid_keeps)

lemma save_attempts_keeps:
  "save_attempts e m as data s = (r, data', s') \<Longrightarrow> k \<noteq> ''date'' \<Longrightarrow> k \<noteq> ''pid'' \<Longrightarrow>
   dict_get data' k = dict_get data k"
proof (induction as arbitrary: data s)
  case Nil
  then show ?case by simp
next
  case (Cons a as)
  obtain out d1 s1 where sa: "save_attempt e m a data s = (out, d1, s1)"
    by (cases "save_attempt e m a data s") auto
  from save_attempt_keeps [OF sa Cons.prems(2,3)] have k1: "dict_get d1 k = dict_get data k" .
  show ?case
  proof (cases out)
    case (Return x)
    with Cons.prems(1) sa k1 show ?thesis by simp
  next
    case Retry
    with Cons.prems(1) sa have "save_attempts e m as d1 s1 = (r, data', s')" by simp
    from Cons.IH [OF this Cons.prems(2,3)] k1 show ?thesis by simp
  qed
qed

lemma save_to_es_keeps:
  "save_to_es e data s m = (r, data', s') \<Longrightarrow> k \<noteq> ''date'' \<Longrightarrow> k \<noteq> ''pid'' \<Longrightarrow>
   dict_get data' k = dict_get data k"
  unfolding save_to_es_def by (rule save_attempts_keeps)

lemma text_embeddings_3_calls:
  "provider_calls (snd (text_embeddings_3 e text w)) =
     provider_calls w @
       [if 8000 < length (encode e text) then decode e (take 8000 (encode e text)) else text]"
  by (simp add: text_embeddings_3_def Let_def split: option.splits)

section \<open>Embedding (\<^verbatim>\<open>text_embeddings_3\<close>, \<^verbatim>\<open>embedding_and_save\<close>)\<close>

text \<open>
  C8. A text of more than 8000 tokens is sent to the provider as the decoding of its
  first 8000 tokens, exactly that many. A record with a title whose \<^verbatim>\<open>full_content\<close> is
  missing, empty or only whitespace goes through \<^verbatim>\<open>embedding_and_save\<close> without any call
  to the provider, and comes out with the empty list as its \<^verbatim>\<open>embeddings\<close>.
\<close>

theorem embedding_bounded_and_skipped:
  "(8000 < length (encode e text) \<longrightarrow>
      length (take 8000 (encode e text)) = 8000 \<and>
      provider_calls (snd (text_embeddings_3 e text w)) =
        provider_calls w @ [decode e (take 8000 (encode e text))]) \<and>
   (dict_has report ''title'' \<and> get_stripped report ''full_content'' = Inr [] \<longrightarrow>
      provider_calls (snd (snd (embedding_and_save e report w))) = provider_calls w \<and>
      dict_get (fst (snd (embedding_and_save e report w))) ''embeddings'' = Some (PList []))"
proof (intro conjI impI)
  assume "8000 < length (encode e text)"
  then show "length (take 8000 (encode e text)) = 8000" by simp
  from \<open>8000 < length (encode e text)\<close>
  show "provider_calls (snd (text_embeddings_3 e text w)) =
        provider_calls w @ [decode e (take 8000 (encode e text))]"
    by (simp add: text_embeddings_3_calls)
next
  assume a: "dict_has report ''title'' \<and> get_stripped report ''full_content'' = Inr []"
  then obtain t where t: "dict_get report ''title'' = Some t"
    using dict_get_has by blast
  define report1 where "report1 = dict_set report ''embeddings'' (PList [])"
  define w2 where "w2 = snd (backup_to_jsonl report1 w)"
  obtain r report2 s' where sv: "save_to_es e report1 (store w2) 3 = (r, report2, s')"
    by (cases "save_to_es e report1 (store w2) 3") auto
  have pc: "provider_calls w2 = provider_calls w"
    by (simp add: w2_def backup_to_jsonl_def)
  have res: "snd (embedding_and_save e report w) = (report2, w2\<lparr>store := s'\<rparr>)"
    using a t sv by (simp add: embedding_and_save_def Let_def report1_def w2_def)
  have "dict_get report2 ''embeddings'' = dict_get report1 ''embeddings''"
    by (rule save_to_es_keeps [OF sv]) simp_all
  then have emb: "dict_get report2 ''embeddings'' = Some (PList [])"
    by (simp add: report1_def dict_get_dict_set)
  from res pc show "provider_calls (snd (snd (embedding_and_save e report w))) = provider_calls w"
    by simp
  from res emb show "dict_get (fst (snd (embedding_and_save e report w))) ''embeddings'' = Some (PList [])"
    by simp
qed

theorem embedding_bounded_and_skipped_witness:
  "8000 < length (encode env0 long_text) \<and>
   provider_calls (snd (text_embeddings_3 env0 long_text world0)) =
     [decode env0 (take 8000 (encode env0 long_text))] \<and>
   get_stripped report_blank ''full_content'' = Inr [] \<and>
   provider_calls (snd (snd (embedding_and_save env0 report_blank world0))) = [] \<and>
   dict_get (fst (snd (embedding_and_save env0 report_blank world0))) ''embeddings'' =
     Some (PList [])"
proof -
  have h1: "8000 < length (encode env0 long_text)"
    by (simp add: env0_def long_text_def)
  have h2: "dict_has report_blank ''title'' \<and> get_stripped report_blank ''full_content'' = Inr []"
    by (simp add: report_blank_def dict_has_def get_stripped_def dict_get_def strip_def
        py_isspace_def)
  have p: "provider_calls world0 = []"
    by (simp add: world0_def)
  from embedding_bounded_and_skipped [of env0 long_text world0 report_blank] h1 h2 p
  show ?thesis by simp
qed

section \<open>The retry loop of \<^verbatim>\<open>save_to_es\<close>\<close>

lemma es_call_state: "es_call s = (f, s') \<Longrightarrow> indices s' = indices s \<and> next_id s' = next_id s"
  by (auto simp: es_call_def split: list.splits)

lemma es_search_state:
  assumes "es_search s index p = (res, s')"
  shows "indices s' = indices s \<and> next_id s' = next_id s"
proof -
  obtain f s1 where c: "es_call s = (f, s1)" by (cases "es_call s") auto
  with assms have "s' = s1"
    by (cases f) (auto simp: es_search_def split: option.splits)
  with es_call_state [OF c] show ?thesis by simp
qed

lemma es_search_hits:
  assumes "es_search s index p = (Inr hits, s')"
  shows "set hits \<subseteq> set (docs_of s index) \<and> (\<forall>h \<in> set hits. p (doc_source h))"
proof -
  obtain f s1 where c: "es_call s = (f, s1)" by (cases "es_call s") auto
  from es_call_state [OF c] have i: "indices s1 = indices s" by simp
  from assms c i show ?thesis
    by (cases f) (auto simp: es_search_def docs_of_def split: option.splits)
qed

lemma get_stripped_cong:
  "dict_get d1 k = dict_get d2 k \<Longrightarrow> get_stripped d1 k = get_stripped d2 k"
  by (simp add: get_stripped_def)

lemma get_stripped_nonempty:
  "get_stripped d k = Inr t \<Longrightarrow> t \<noteq> [] \<Longrightarrow> \<exists>s. dict_get d k = Some (PStr s) \<and> strip s = t"
  by (auto simp: get_stripped_def strip_def split: option.splits pyval.splits)

lemma ensure_date_blank:
  "get_stripped data ''date'' = Inr [] \<Longrightarrow>
   ensure_date e data = Inr (dict_set data ''date'' (PStr (iso_date (now e))))"
  by (simp add: ensure_date_def strftime_date del: strftime.simps)

lemma ensure_date_fix:
  "dict_get data ''date'' = Some (PStr ds) \<Longrightarrow> strip ds \<noteq> [] \<Longrightarrow> ensure_date e data = Inr data"
  by (simp add: ensure_date_def get_stripped_def)

lemma ensure_date_post:
  assumes "ensure_date e data = Inr data1"
  shows "\<exists>ds. dict_get data1 ''date'' = Some (PStr ds) \<and> strip ds \<noteq> []"
proof -
  from assms obtain d where d: "get_stripped data ''date'' = Inr d"
    by (auto simp: ensure_date_def split: sum.splits)
  show ?thesis
  proof (cases "d = []")
    case True
    with d assms have "data1 = dict_set data ''date'' (PStr (iso_date (now e)))"
      by (simp add: ensure_date_blank)
    then show ?thesis by (simp add: dict_get_dict_set strip_iso_date)
  next
    case False
    with d assms have "data1 = data" by (simp add: ensure_date_def)
    with get_stripped_nonempty [OF d False] False show ?thesis by auto
  qed
qed

lemma date_prefix_of_not_empty: "date_prefix_of e data = Inr p \<Longrightarrow> p \<noteq> []"
  by (auto simp: date_prefix_of_def Let_def strftime_compact compact_date_not_empty
      simp del: strftime.simps
      split: if_splits pyval.splits option.splits sum.splits dest: search_date_year)

lemma ensure_pid_fix:
  "dict_get data ''pid'' = Some v \<Longrightarrow> truthy v \<Longrightarrow> ensure_pid e data = Inr data"
  by (simp add: ensure_pid_def)

lemma generate_pid_post:
  "generate_pid e data = Inr data2 \<Longrightarrow> \<exists>v. dict_get data2 ''pid'' = Some v \<and> truthy v"
  by (auto simp: generate_pid_def Let_def dict_get_dict_set
      split: sum.splits if_splits pyval.splits dest: date_prefix_of_not_empty)

lemma ensure_pid_post:
  "ensure_pid e data = Inr data2 \<Longrightarrow> \<exists>v. dict_get data2 ''pid'' = Some v \<and> truthy v"
  by (auto simp: ensure_pid_def split: option.splits if_splits dest: generate_pid_post)

text \<open>A record prepared once is left as it is by the preparation of a later pass.\<close>

lemma prepared_again:
  assumes "ensure_date e data = Inr data1" and "ensure_pid e data1 = Inr data2"
  shows "ensure_date e data2 = Inr data2 \<and> ensure_pid e data2 = Inr data2"
proof -
  from ensure_date_post [OF assms(1)] obtain ds where
    "dict_get data1 ''date'' = Some (PStr ds)" "strip ds \<noteq> []" by blast
  with ensure_pid_keeps [OF assms(2), of "''date''"]
  have "ensure_date e data2 = Inr data2" by (simp add: ensure_date_fix)
  moreover from ensure_pid_post [OF assms(2)] have "ensure_pid e data2 = Inr data2"
    by (auto simp: ensure_pid_fix)
  ultimately show ?thesis by simp
qed

lemma prepared_title:
  assumes "ensure_date e data = Inr data1" and "ensure_pid e data1 = Inr data2"
  shows "dict_get data2 ''title'' = dict_get data ''title''"
  using ensure_date_keeps [OF assms(1), of "''title''"] ensure_pid_keeps [OF assms(2), of "''title''"]
  by simp

lemma es_search_fault:
  "faults s = True # fs \<Longrightarrow> es_search s index p = (Inl StoreError, s\<lparr>faults := fs\<rparr>)"
  by (simp add: es_search_def es_call_def)

lemma save_attempt_search_fails:
  assumes title: "dict_get data ''title'' = Some (PStr title)" "strip title \<noteq> []"
    and prep: "ensure_date e data = Inr data1" "ensure_pid e data1 = Inr data2"
    and f: "faults s = True # fs"
  shows "save_attempt e n i data s =
           (if Suc i < n then (Retry, data2, s\<lparr>faults := fs\<rparr>)
            else upload_step e n i data2 (s\<lparr>faults := fs\<rparr>))"
proof -
  have t2: "get_or_empty data2 ''title'' = PStr title"
    using title(1) prepared_title [OF prep] by (simp add: get_or_empty_def)
  have ne: "title \<noteq> []" using title(2) by (auto simp: strip_def)
  show ?thesis
    using title prep t2 ne es_search_fault [OF f]
    by (simp add: save_attempt_def get_stripped_def Let_def)
qed

lemma save_attempts_search_fails:
  assumes title: "dict_get data ''title'' = Some (PStr title)" "strip title \<noteq> []"
    and prep: "ensure_date e data = Inr data1" "ensure_pid e data1 = Inr data2"
    and f: "faults s = replicate (n - i) True @ rest" and i: "i < n"
  shows "save_attempts e n [i..<n] data s = last_upload e n data2 (s\<lparr>faults := rest\<rparr>)"
  using assms
proof (induction "n - i" arbitrary: i data data1 s)
  case 0
  then show ?case by simp
next
  case (Suc k)
  from Suc.prems(6) have up: "[i..<n] = i # [Suc i..<n]" by (simp add: upt_rec)
  from Suc.hyps(2) have r: "replicate (n - i) True = True # replicate (n - Suc i) True"
    by (metis Suc_diff_Suc Suc.prems(6) replicate_Suc)
  with Suc.prems(5) have f: "faults s = True # (replicate (n - Suc i) True @ rest)" by simp
  note at = save_attempt_search_fails [OF Suc.prems(1-4) f, of n i]
  show ?case
  proof (cases "Suc i < n")
    case True
    from prepared_again [OF Suc.prems(3,4)] have p2:
      "ensure_date e data2 = Inr data2" "ensure_pid e data2 = Inr data2" by simp_all
    from Suc.prems(1) prepared_title [OF Suc.prems(3,4)]
    have t2: "dict_get data2 ''title'' = Some (PStr title)" by simp
    from Suc.hyps(2) have k: "k = n - Suc i" by simp
    have "save_attempts e n [Suc i..<n] data2 (s\<lparr>faults := replicate (n - Suc i) True @ rest\<rparr>)
          = last_upload e n data2 (s\<lparr>faults := replicate (n - Suc i) True @ rest, faults := rest\<rparr>)"
      by (rule Suc.hyps(1) [OF k t2 Suc.prems(2) p2 _ True]) simp
    with at True up show ?thesis by simp
  next
    case False
    with Suc.prems(6) have "n - Suc i = 0" "n - 1 = i" by simp_all
    with at False up show ?thesis
      by (auto simp: last_upload_def upload_step_def split: prod.splits if_splits)
  qed
qed

section \<open>The duplicate check by title (\<^verbatim>\<open>save_to_es\<close>, lines 128 to 158)\<close>

text \<open>
  C6. The record has a title that is not blank, and validation, date and identifier
  assignment raise nothing. When the phrase search for the title succeeds with a hit,
  \<^verbatim>\<open>save_to_es\<close> returns \<^verbatim>\<open>SKIP\<close> with the store id of the first hit, a document of the
  index that matches the title. The store is as the search left it: the same indices
  with the same documents, and no id has been assigned.
\<close>

theorem save_to_es_skips_existing_title:
  assumes title: "dict_get data ''title'' = Some (PStr title)" "strip title \<noteq> []"
    and prep: "ensure_date e data = Inr data1" "ensure_pid e data1 = Inr data2"
    and srch: "es_search s index_name (match_phrase e (PStr title)) = (Inr (hit # hits), s1)"
    and m: "0 < max_retries"
  shows "save_to_es e data s max_retries =
           (\<lparr>Result = ''SKIP'', Message = ''Document with same title already exists'',
             ResultData = None, existing_id = Some (doc_id hit)\<rparr>, data2, s1) \<and>
         indices s1 = indices s \<and> next_id s1 = next_id s \<and>
         hit \<in> set (docs_of s index_name) \<and> match_phrase e (PStr title) (doc_source hit)"
proof -
  have t2: "get_or_empty data2 ''title'' = PStr title"
    using title(1) ensure_date_keeps [OF prep(1), of "''title''"]
      ensure_pid_keeps [OF prep(2), of "''title''"]
    by (simp add: get_or_empty_def)
  have ne: "title \<noteq> []" using title(2) by (auto simp: strip_def)
  have at: "save_attempt e max_retries 0 data s =
      (Return \<lparr>Result = ''SKIP'', Message = ''Document with same title already exists'',
             ResultData = None, existing_id = Some (doc_id hit)\<rparr>, data2, s1)"
    using title prep srch t2 ne
    by (simp add: save_attempt_def get_stripped_def Let_def)
  from m have "[0..<max_retries] = 0 # [1..<max_retries]"
    by (simp add: upt_rec)
  with at have "save_to_es e data s max_retries =
           (\<lparr>Result = ''SKIP'', Message = ''Document with same title already exists'',
             ResultData = None, existing_id = Some (doc_id hit)\<rparr>, data2, s1)"
    by (simp add: save_to_es_def)
  with es_search_state [OF srch] es_search_hits [OF srch] show ?thesis by simp
qed

theorem save_to_es_skips_existing_title_witness:
  "save_to_es env0 record_x store_x 3 =
     (\<lparr>Result = ''SKIP'', Message = ''Document with same title already exists'',
       ResultData = None, existing_id = Some 7\<rparr>, record_x, store_x)"
proof -
  have t: "dict_get record_x ''title'' = Some (PStr ''X'')" "strip ''X'' \<noteq> []"
    by (simp_all add: record_x_def dict_get_def strip_def py_isspace_def)
  have d: "ensure_date env0 record_x = Inr record_x"
    by (simp add: ensure_date_def get_stripped_def record_x_def dict_get_def strip_def
        py_isspace_def)
  have p: "ensure_pid env0 record_x = Inr record_x"
    by (simp add: ensure_pid_def record_x_def dict_get_def)
  have s: "es_search store_x index_name (match_phrase env0 (PStr ''X'')) =
      (Inr [\<lparr>doc_id = 7, doc_version = 1,
              doc_source = [(''title'', PStr ''X''), (''pid'', PStr ''2023010155'')]\<rparr>], store_x)"
    by (simp add: es_search_def es_call_def store_x_def store0_def env0_def dict_get_def)
  from save_to_es_skips_existing_title [OF t d p s, of 3] show ?thesis by simp
qed

section \<open>Identifiers (\<^verbatim>\<open>main_process\<close> lines 408 to 415, \<^verbatim>\<open>save_to_es\<close> lines 95 to 126)\<close>



lemma refine_report_keeps:
  "k \<noteq> ''label'' \<Longrightarrow> k \<noteq> ''summary'' \<Longrightarrow> k \<noteq> ''full_content'' \<Longrightarrow>
   dict_get (refine_report det report) k = dict_get report k"
  by (simp add: refine_report_def Let_def dict_get_dict_set split: option.splits)

lemma entry_report_fields:
  "dict_get (entry_report article article_id title r) ''title'' = Some (PStr title)"
  "dict_get (entry_report article article_id title r) ''date'' = Some (PStr (entry_date article))"
  "dict_get (entry_report article article_id title r) ''pid'' =
     Some (PStr (make_pid (entry_date article) article_id r))"
  by (simp_all add: entry_report_def Let_def split_beta dict_get_def)

lemma build_report_keeps:
  "k \<noteq> ''label'' \<Longrightarrow> k \<noteq> ''summary'' \<Longrightarrow> k \<noteq> ''full_content'' \<Longrightarrow>
   dict_get (fst (build_report e article article_id title w)) k =
     dict_get (entry_report article article_id title (300 + randint e (draws w) mod 700)) k"
  by (simp add: build_report_def Let_def refine_report_keeps split: option.splits)

lemma build_report_title:
  "dict_get (fst (build_report e article article_id title w)) ''title'' = Some (PStr title)"
  by (simp add: build_report_keeps entry_report_fields)

lemma build_report_world:
  "ledger (snd (build_report e article article_id title w)) = ledger w \<and>
   history (snd (build_report e article article_id title w)) = history w \<and>
   ledger_writable (snd (build_report e article article_id title w)) = ledger_writable w"
  by (simp add: build_report_def Let_def)

lemma search_date_not_empty: "search_date ds = Some g \<Longrightarrow> ds \<noteq> []"
  by (cases ds) simp_all



lemma generate_pid_from_date:
  assumes "\<not> truthy (get_or_empty data ''article_id'')"
    and "dict_get data ''title'' = Some (PStr t)"
    and "dict_get data ''date'' = Some (PStr ds)"
    and "search_date ds = Some (y, m, d)"
    and "int_hex (drop (length (md5_hexdigest e t) - 4) (md5_hexdigest e t)) = Inr n"
  shows "generate_pid e data =
           Inr (dict_set data ''pid'' (PStr (y @ zfill 2 m @ zfill 2 d @ serial_num n)))"
proof -
  from search_date_year [OF assms(4)] have y: "y \<noteq> []" by auto
  from search_date_not_empty [OF assms(4)] have ds: "ds \<noteq> []" .
  from assms(3,4) y ds have "date_prefix_of e data = Inr (y @ zfill 2 m @ zfill 2 d)"
    by (simp add: date_prefix_of_def get_or_empty_def Let_def)
  with assms(1,2,5) show ?thesis
    by (simp add: generate_pid_def get_or_empty_def Let_def)
qed

lemma zfill_same: "length s = w \<Longrightarrow> zfill w s = s"
  by (simp add: zfill_def)

lemma length_zfill2: "n < 100 \<Longrightarrow> length (zfill 2 (str_nat n)) = 2"
  by (simp add: zfill2)





section \<open>The date of a stored document (\<^verbatim>\<open>save_to_es\<close>, lines 89 to 126)\<close>

lemma writes_only_refl: "writes_only P s s"
  by (simp add: writes_only_def)

lemma writes_only_trans: "writes_only P s s1 \<Longrightarrow> writes_only P s1 s2 \<Longrightarrow> writes_only P s s2"
  unfolding writes_only_def by blast

lemma writes_only_same: "indices s' = indices s \<Longrightarrow> writes_only P s s'"
  by (simp add: writes_only_def docs_of_def)

lemma es_call_indices: "indices (snd (es_call s)) = indices s"
  by (simp add: es_call_def split: list.splits)

lemma indices_exists_writes: "writes_only P s (snd (indices_exists s index))"
  using es_call_indices [of s]
  by (intro writes_only_same) (auto simp: indices_exists_def split: prod.splits bool.splits)

lemma es_search_writes: "writes_only P s (snd (es_search s index p))"
  using es_call_indices [of s]
  by (intro writes_only_same)
    (auto simp: es_search_def split: prod.splits bool.splits option.splits)

lemma indices_refresh_writes: "writes_only P s (snd (indices_refresh s index))"
  using es_call_indices [of s]
  by (intro writes_only_same)
    (auto simp: indices_refresh_def split: prod.splits bool.splits option.splits)

lemma get_index_fields_writes: "writes_only P s (snd (get_index_fields s index))"
  using es_call_indices [of s]
  by (intro writes_only_same)
    (auto simp: get_index_fields_def indices_get_mapping_def
      split: prod.splits bool.splits option.splits sum.splits)

lemma indices_create_writes: "writes_only P s (snd (indices_create s index props))"
  using es_call_indices [of s]
  by (auto simp: indices_create_def writes_only_def docs_of_def
      split: prod.splits bool.splits option.splits)

lemma replace_doc_set:
  "d \<in> set (replace_doc ds i src) \<Longrightarrow> d \<in> set ds \<or> doc_source d = src"
  by (induction ds) (auto split: if_splits)

lemma es_index_doc_writes: "P src \<Longrightarrow> writes_only P s (snd (es_index_doc s index ident src))"
  using es_call_indices [of s]
  by (auto simp: es_index_doc_def writes_only_def docs_of_def Let_def
      split: prod.splits bool.splits option.splits dest: replace_doc_set)

lemma andthen_writes:
  assumes "writes_only P s (snd m)"
    and "\<And>x s1. m = (Inr x, s1) \<Longrightarrow> writes_only P s1 (snd (f x s1))"
  shows "writes_only P s (snd (andthen m f))"
proof (cases m)
  case (Pair r s1)
  show ?thesis
  proof (cases r)
    case (Inl ex)
    with Pair assms(1) show ?thesis by (simp add: andthen_def)
  next
    case (Inr x)
    with Pair assms(2) [of x s1] have "writes_only P s1 (snd (f x s1))" by simp
    with Pair Inr assms(1) show ?thesis
      by (auto simp: andthen_def intro: writes_only_trans)
  qed
qed

lemma upload_cleaned_writes:
  assumes "P cleaned"
  shows "writes_only P s (snd (upload_cleaned e s cleaned index False))"
  unfolding upload_cleaned_def
  apply (rule andthen_writes [OF indices_exists_writes])
  apply (rule andthen_writes)
   apply (simp add: indices_create_writes writes_only_refl)
  apply (simp add: Let_def split: option.splits)
  apply (intro conjI impI allI writes_only_refl andthen_writes es_search_writes)
  apply (auto split: list.splits intro!: andthen_writes es_index_doc_writes assms
      indices_refresh_writes writes_only_refl)
  done

lemma dict_get_clean_data:
  "dict_get (clean_data d) k =
     map_option (\<lambda>v. if v \<noteq> PNone \<and> v \<noteq> PStr [] then v else PStr []) (dict_get d k)"
  unfolding clean_data_def dict_get_def by (simp only: map_of_map comp_apply)

lemma clean_data_keys: "dict_keys (clean_data d) = dict_keys d"
  unfolding clean_data_def dict_keys_def by (induction d) (simp_all add: case_prod_beta)

lemma has_date_cleaned: "has_date d \<Longrightarrow> has_date (clean_document e (clean_data d))"
  by (auto simp: has_date_def dict_get_clean_document dict_get_clean_data clean_value_def
      time_fields_to_exclude_def strip_def split: option.splits pyval.splits)

lemma upload_single_document_writes:
  assumes "P (clean_document e doc)"
  shows "writes_only P s (snd (upload_single_document e s doc index False))"
  using upload_cleaned_writes [of P "clean_document e doc" s e index, OF assms]
  by (auto simp: upload_single_document_def writes_only_refl split: prod.splits sum.splits)

lemma upload_step_writes:
  assumes "has_date data"
  shows "writes_only has_date s (snd (snd (upload_step e n i data s)))"
  using upload_single_document_writes [of has_date e "clean_data data" s index_name]
    has_date_cleaned [OF assms, of e]
  by (auto simp: upload_step_def split: prod.splits)

lemma prepared_has_date:
  assumes "ensure_date e data = Inr data1" and "ensure_pid e data1 = Inr data2"
  shows "has_date data2"
proof -
  from ensure_date_post [OF assms(1)] obtain ds where
    "dict_get data1 ''date'' = Some (PStr ds)" "strip ds \<noteq> []" by blast
  with ensure_pid_keeps [OF assms(2), of "''date''"] show ?thesis
    by (simp add: has_date_def)
qed

lemma save_attempt_writes: "writes_only has_date s (snd (snd (save_attempt e n i data s)))"
proof (cases "ensure_date e data")
  case (Inl ex)
  then show ?thesis
    by (auto simp: save_attempt_def Let_def writes_only_refl split: sum.splits)
next
  case (Inr data1)
  show ?thesis
  proof (cases "ensure_pid e data1")
    case (Inl ex)
    with Inr show ?thesis
      by (auto simp: save_attempt_def Let_def writes_only_refl split: sum.splits)
  next
    case (Inr data2)
    note hd = prepared_has_date [OF \<open>ensure_date e data = Inr data1\<close> Inr]
    obtain res s1 where sr: "es_search s index_name (match_phrase e (get_or_empty data2 ''title'')) = (res, s1)"
      by (cases "es_search s index_name (match_phrase e (get_or_empty data2 ''title''))") auto
    from es_search_writes [of has_date s index_name "match_phrase e (get_or_empty data2 ''title'')"] sr
    have w1: "writes_only has_date s s1" by simp
    have u: "writes_only has_date s (snd (snd (upload_step e n i data2 s)))"
      by (rule upload_step_writes [OF hd])
    have u1: "writes_only has_date s (snd (snd (upload_step e n i data2 s1)))"
      by (rule writes_only_trans [OF w1 upload_step_writes [OF hd]])
    show ?thesis
      using \<open>ensure_date e data = Inr data1\<close> Inr sr w1 u u1
      by (auto simp: save_attempt_def Let_def writes_only_refl
          split: sum.splits list.splits)
  qed
qed

lemma save_attempts_writes:
  "writes_only has_date s (snd (snd (save_attempts e n as data s)))"
proof (induction as arbitrary: data s)
  case Nil
  then show ?case by (simp add: writes_only_refl)
next
  case (Cons a as)
  obtain out d1 s1 where sa: "save_attempt e n a data s = (out, d1, s1)"
    by (cases "save_attempt e n a data s") auto
  from save_attempt_writes [of s e n a data] sa have w: "writes_only has_date s s1" by simp
  show ?case
  proof (cases out)
    case (Return r)
    with sa w show ?thesis by simp
  next
    case Retry
    with sa writes_only_trans [OF w Cons.IH [of s1 d1]] show ?thesis by simp
  qed
qed

lemma save_to_es_writes: "writes_only has_date s (snd (snd (save_to_es e data s n)))"
  unfolding save_to_es_def by (rule save_attempts_writes)

lemma date_prefix_today:
  assumes "valid_date (now e)" and "dict_get data ''date'' = Some (PStr (iso_date (now e)))"
  shows "date_prefix_of e data = Inr (compact_date (now e))"
proof -
  from assms(1) have m: "dt_month (now e) < 100" and d: "dt_day (now e) < 100"
    by (simp_all add: valid_date_def)
  have ne: "iso_date (now e) \<noteq> []" by (simp add: iso_date_def)
  have z: "zfill 2 (zfill 2 (str_nat (dt_month (now e)))) = zfill 2 (str_nat (dt_month (now e)))"
    "zfill 2 (zfill 2 (str_nat (dt_day (now e)))) = zfill 2 (str_nat (dt_day (now e)))"
    by (simp_all add: zfill_same length_zfill2 m d)
  show ?thesis
    using assms(2) ne search_date_iso [OF assms(1)]
    by (simp add: date_prefix_of_def get_or_empty_def Let_def z compact_date_def
        str_nat_not_empty)
qed

lemma save_attempt_date_kept:
  assumes "dict_get data ''date'' = Some (PStr ds)" and "strip ds \<noteq> []"
    and "save_attempt e n i data s = (out, data', s')"
  shows "dict_get data' ''date'' = Some (PStr ds)"
proof -
  from assms(1,2) have fx: "ensure_date e data = Inr data" by (rule ensure_date_fix)
  from save_attempt_data [OF assms(3)] fx
  have "data' = data \<or> (\<exists>data2. ensure_pid e data = Inr data2 \<and> data' = data2)" by auto
  with assms(1) show ?thesis
    using ensure_pid_keeps [of e data _ "''date''"] by auto
qed

lemma save_attempts_date_kept:
  "dict_get data ''date'' = Some (PStr ds) \<Longrightarrow> strip ds \<noteq> [] \<Longrightarrow>
   save_attempts e n as data s = (r, data', s') \<Longrightarrow> dict_get data' ''date'' = Some (PStr ds)"
proof (induction as arbitrary: data s)
  case Nil
  then show ?case by simp
next
  case (Cons a as)
  obtain out d1 s1 where sa: "save_attempt e n a data s = (out, d1, s1)"
    by (cases "save_attempt e n a data s") auto
  from save_attempt_date_kept [OF Cons.prems(1,2) sa]
  have k1: "dict_get d1 ''date'' = Some (PStr ds)" .
  show ?case
  proof (cases out)
    case (Return x)
    with Cons.prems(3) sa k1 show ?thesis by simp
  next
    case Retry
    with Cons.prems(3) sa have "save_attempts e n as d1 s1 = (r, data', s')" by simp
    from Cons.IH [OF k1 Cons.prems(2) this] show ?thesis .
  qed
qed

lemma save_attempt_blank_date:
  assumes "dict_get data ''title'' = Some (PStr title)" and "strip title \<noteq> []"
    and "get_stripped data ''date'' = Inr []"
    and "save_attempt e n i data s = (out, data', s')"
  shows "dict_get data' ''date'' = Some (PStr (iso_date (now e)))"
proof -
  define data1 where "data1 = dict_set data ''date'' (PStr (iso_date (now e)))"
  have ed: "ensure_date e data = Inr data1"
    unfolding data1_def using assms(3) by (rule ensure_date_blank)
  have d1: "dict_get data1 ''date'' = Some (PStr (iso_date (now e)))"
    by (simp add: data1_def dict_get_dict_set)
  show ?thesis
  proof (cases "ensure_pid e data1")
    case (Inl ex)
    with assms(1,2,4) ed have "data' = data1"
      by (auto simp: save_attempt_def get_stripped_def Let_def split: if_splits)
    with d1 show ?thesis by simp
  next
    case (Inr data2)
    with assms(1,2,4) ed have "data' = data2"
      by (auto simp: save_attempt_def get_stripped_def Let_def
          split: if_splits prod.splits sum.splits list.splits dest: upload_step_data)
    with d1 ensure_pid_keeps [OF Inr, of "''date''"] show ?thesis by simp
  qed
qed

lemma save_to_es_blank_date:
  assumes "dict_get data ''title'' = Some (PStr title)" and "strip title \<noteq> []"
    and "get_stripped data ''date'' = Inr []" and "0 < n"
  shows "dict_get (fst (snd (save_to_es e data s n))) ''date'' = Some (PStr (iso_date (now e)))"
proof -
  from assms(4) have up: "[0..<n] = 0 # [1..<n]" by (simp add: upt_rec)
  obtain out d1 s1 where sa: "save_attempt e n 0 data s = (out, d1, s1)"
    by (cases "save_attempt e n 0 data s") auto
  from save_attempt_blank_date [OF assms(1-3) sa]
  have k1: "dict_get d1 ''date'' = Some (PStr (iso_date (now e)))" .
  show ?thesis
  proof (cases out)
    case (Return x)
    with sa k1 up show ?thesis by (simp add: save_to_es_def)
  next
    case Retry
    obtain r d2 s2 where rest: "save_attempts e n [1..<n] d1 s1 = (r, d2, s2)"
      by (cases "save_attempts e n [1..<n] d1 s1") auto
    from save_attempts_date_kept [OF k1 strip_iso_date rest]
    have "dict_get d2 ''date'' = Some (PStr (iso_date (now e)))" .
    with Retry sa up rest show ?thesis by (simp add: save_to_es_def)
  qed
qed

text \<open>
  C10. A record whose date is missing, empty or blank gets today's date as
  \<^verbatim>\<open>YYYY-MM-DD\<close> before the identifier is made, and with a title that is not blank it
  comes out of \<^verbatim>\<open>save_to_es\<close> with that date. When the identifier has to be generated
  for such a record, it starts with today's date as \<^verbatim>\<open>YYYYMMDD\<close>, whatever the record
  holds. Whatever the record, every document that \<^verbatim>\<open>save_to_es\<close> writes to the store has a
  date that is not blank.
\<close>

theorem blank_date_becomes_today:
  assumes "get_stripped data ''date'' = Inr []"
  shows "ensure_date e data = Inr (dict_set data ''date'' (PStr (iso_date (now e)))) \<and>
         (dict_get data ''title'' = Some (PStr title) \<and> strip title \<noteq> [] \<and> 0 < max_retries \<longrightarrow>
            dict_get (fst (snd (save_to_es e data s max_retries))) ''date'' =
              Some (PStr (iso_date (now e)))) \<and>
         (valid_date (now e) \<and> \<not> truthy (get_or_empty data ''pid'') \<and>
          ensure_pid e (dict_set data ''date'' (PStr (iso_date (now e)))) = Inr data2 \<longrightarrow>
            (\<exists>suffix. dict_get data2 ''pid'' = Some (PStr (compact_date (now e) @ suffix)))) \<and>
         writes_only has_date s (snd (snd (save_to_es e data s max_retries)))"
proof (intro conjI impI)
  show "ensure_date e data = Inr (dict_set data ''date'' (PStr (iso_date (now e))))"
    using assms by (rule ensure_date_blank)
  show "writes_only has_date s (snd (snd (save_to_es e data s max_retries)))"
    by (rule save_to_es_writes)
next
  assume "dict_get data ''title'' = Some (PStr title) \<and> strip title \<noteq> [] \<and> 0 < max_retries"
  then show "dict_get (fst (snd (save_to_es e data s max_retries))) ''date'' =
      Some (PStr (iso_date (now e)))"
    using save_to_es_blank_date [OF _ _ assms] by blast
next
  define data1 where "data1 = dict_set data ''date'' (PStr (iso_date (now e)))"
  assume a: "valid_date (now e) \<and> \<not> truthy (get_or_empty data ''pid'') \<and>
          ensure_pid e (dict_set data ''date'' (PStr (iso_date (now e)))) = Inr data2"
  then have v: "valid_date (now e)" and np: "\<not> truthy (get_or_empty data ''pid'')"
    and ep: "ensure_pid e data1 = Inr data2" by (simp_all add: data1_def)
  have d1: "dict_get data1 ''date'' = Some (PStr (iso_date (now e)))"
    by (simp add: data1_def dict_get_dict_set)
  have p1: "dict_get data1 ''pid'' = dict_get data ''pid''"
    by (simp add: data1_def dict_get_dict_set)
  from np p1 ep have g: "generate_pid e data1 = Inr data2"
    by (auto simp: ensure_pid_def get_or_empty_def split: option.splits if_splits)
  from g date_prefix_today [OF v d1]
  show "\<exists>suffix. dict_get data2 ''pid'' = Some (PStr (compact_date (now e) @ suffix))"
    by (auto simp: generate_pid_def Let_def dict_get_dict_set
        split: if_splits pyval.splits sum.splits)
qed

theorem blank_date_becomes_today_witness:
  "get_stripped record_nodate ''date'' = Inr [] \<and>
   ensure_date env0 record_nodate = Inr [(''title'', PStr ''AA''), (''date'', PStr ''2024-03-20'')] \<and>
   dict_get (fst (snd (save_to_es env0 record_nodate store0 3))) ''date'' =
     Some (PStr ''2024-03-20'') \<and>
   (\<exists>suffix. dict_get
       [(''title'', PStr ''AA''), (''date'', PStr ''2024-03-20''), (''pid'', PStr ''20240320518'')]
       ''pid'' = Some (PStr (''20240320'' @ suffix))) \<and>
   writes_only has_date store0 (snd (snd (save_to_es env0 record_nodate store0 3)))"
proof -
  define data1 :: document where
    "data1 = [(''title'', PStr ''AA''), (''date'', PStr ''2024-03-20'')]"
  define data2 :: document where
    "data2 = [(''title'', PStr ''AA''), (''date'', PStr ''2024-03-20''),
              (''pid'', PStr ''20240320518'')]"
  have h: "get_stripped record_nodate ''date'' = Inr []"
    by (simp add: record_nodate_def get_stripped_def dict_get_def strip_def py_isspace_def)
  have v: "valid_date (now env0)"
    by (simp add: valid_date_def env0_def dt0_def)
  have np: "\<not> truthy (get_or_empty record_nodate ''pid'')"
    by (simp add: record_nodate_def get_or_empty_def dict_get_def)
  have i: "iso_date (now env0) = ''2024-03-20''"
    by code_simp
  have c: "compact_date (now env0) = ''20240320''"
    by code_simp
  have s: "dict_set record_nodate ''date'' (PStr ''2024-03-20'') = data1"
    by (simp add: record_nodate_def data1_def)
  have g: "generate_pid env0 data1 =
      Inr (dict_set data1 ''pid'' (PStr (''2024'' @ zfill 2 ''03'' @ zfill 2 ''20'' @ serial_num 518)))"
  proof (rule generate_pid_from_date)
    show "\<not> truthy (get_or_empty data1 ''article_id'')"
      by (simp add: data1_def get_or_empty_def dict_get_def)
    show "dict_get data1 ''title'' = Some (PStr ''AA'')"
      by (simp add: data1_def dict_get_def)
    show "dict_get data1 ''date'' = Some (PStr ''2024-03-20'')"
      by (simp add: data1_def dict_get_def)
    show "search_date ''2024-03-20'' = Some (''2024'', ''03'', ''20'')"
      by code_simp
    show "int_hex (drop (length (md5_hexdigest env0 ''AA'') - 4) (md5_hexdigest env0 ''AA'')) =
        Inr 518"
      by code_simp
  qed
  have z: "''2024'' @ zfill 2 ''03'' @ zfill 2 ''20'' @ serial_num 518 = ''20240320518''"
    by code_simp
  from g have g2: "generate_pid env0 data1 = Inr data2"
    unfolding z by (simp add: data1_def data2_def)
  have ep: "ensure_pid env0 data1 = generate_pid env0 data1"
    by (simp add: ensure_pid_def data1_def dict_get_def)
  have p: "ensure_pid env0 (dict_set record_nodate ''date'' (PStr (iso_date (now env0)))) =
      Inr data2"
    unfolding i s ep by (rule g2)
  have ti: "dict_get record_nodate ''title'' = Some (PStr ''AA'') \<and> strip ''AA'' \<noteq> [] \<and>
      (0::nat) < 3"
    by (simp add: record_nodate_def dict_get_def strip_def py_isspace_def)
  note t = blank_date_becomes_today [OF h, where e = env0 and ?data2.0 = data2 and s = store0
      and max_retries = 3 and title = "''AA''"]
  from t have a: "ensure_date env0 record_nodate = Inr data1"
    unfolding i s by (rule conjunct1)
  from t ti have d: "dict_get (fst (snd (save_to_es env0 record_nodate store0 3))) ''date'' =
      Some (PStr ''2024-03-20'')"
    unfolding i by (intro mp [OF conjunct1 [OF conjunct2 [OF t [unfolded i]]]])
  from t v np p have b: "\<exists>suffix. dict_get data2 ''pid'' =
      Some (PStr (compact_date (now env0) @ suffix))"
    by (intro mp [OF conjunct1 [OF conjunct2 [OF conjunct2 [OF t]]]] conjI)
  from t have w: "writes_only has_date store0 (snd (snd (save_to_es env0 record_nodate store0 3)))"
    by (rule conjunct2 [OF conjunct2 [OF conjunct2]])
  from h a d b w show ?thesis unfolding c data1_def data2_def by (intro conjI)
qed

section \<open>A failing duplicate check (\<^verbatim>\<open>save_to_es\<close>, lines 160 to 166)\<close>

lemma dict_get_Some_has: "dict_get d k = Some v \<Longrightarrow> dict_has d k"
  by (auto simp: dict_get_def dict_has_def dest: map_of_SomeD intro: rev_image_eqI)

text \<open>
  C9. The record has a title that is not blank, and validation, date and identifier
  assignment raise nothing. When the title search raises in every pass of the retry
  loop (the first \<open>max_retries\<close> store calls fail), the last pass goes on to the upload
  step and \<^verbatim>\<open>save_to_es\<close> returns what that step gives. When no further store call
  fails, the result is \<^verbatim>\<open>Y\<close> and the sanitized record is in the index.
\<close>

theorem search_failure_does_not_block_upload:
  assumes title: "dict_get data ''title'' = Some (PStr title)" "strip title \<noteq> []"
    and prep: "ensure_date e data = Inr data1" "ensure_pid e data1 = Inr data2"
    and f: "faults s = replicate max_retries True @ rest"
    and m: "0 < max_retries"
  shows "save_to_es e data s max_retries =
           last_upload e max_retries data2 (s\<lparr>faults := rest\<rparr>) \<and>
         (rest = [] \<longrightarrow>
            Result (fst (save_to_es e data s max_retries)) = ''Y'' \<and>
            (\<exists>d \<in> set (docs_of (snd (snd (save_to_es e data s max_retries))) index_name).
               doc_source d = clean_document e (clean_data data2)))"
proof (intro conjI impI)
  from f have f0: "faults s = replicate (max_retries - 0) True @ rest" by simp
  show eq: "save_to_es e data s max_retries =
      last_upload e max_retries data2 (s\<lparr>faults := rest\<rparr>)"
    unfolding save_to_es_def by (rule save_attempts_search_fails [OF title prep f0 m])
  assume r: "rest = []"
  obtain res s' where u:
    "upload_single_document e (s\<lparr>faults := rest\<rparr>) (clean_data data2) index_name False = (res, s')"
    by (cases "upload_single_document e (s\<lparr>faults := rest\<rparr>) (clean_data data2) index_name False")
      auto
  from ensure_pid_post [OF prep(2)] obtain v where "dict_get data2 ''pid'' = Some v" by blast
  then have "dict_has data2 ''pid''" by (rule dict_get_Some_has)
  then have hp: "dict_has (clean_data data2) ''pid''"
    using clean_data_keys [of data2] by (simp add: dict_has_def dict_keys_def)
  then have ne: "clean_data data2 \<noteq> []" by (auto simp: dict_has_def)
  have nf: "faults (s\<lparr>faults := rest\<rparr>) = []" using r by simp
  have st: "False \<longrightarrow> ''pid'' \<in> set (known_fields (s\<lparr>faults := rest\<rparr>) index_name)" by simp
  from upload_ok [OF ne hp nf st u] obtain d where
    y: "Result res = ''Y''" and d: "d \<in> set (docs_of s' index_name)"
      "doc_source d = clean_document e (clean_data data2)"
    by auto
  from u y have lu: "last_upload e max_retries data2 (s\<lparr>faults := rest\<rparr>) = (res, data2, s')"
    by (simp add: last_upload_def upload_step_def)
  from eq lu y show "Result (fst (save_to_es e data s max_retries)) = ''Y''" by simp
  from eq lu d show "\<exists>d \<in> set (docs_of (snd (snd (save_to_es e data s max_retries))) index_name).
               doc_source d = clean_document e (clean_data data2)"
    by auto
qed

theorem search_failure_does_not_block_upload_witness:
  "faults store_down = replicate 3 True @ [] \<and>
   Result (fst (save_to_es env0 record_x store_down 3)) = ''Y'' \<and>
   list_ex (\<lambda>d. doc_source d = record_x)
     (docs_of (snd (snd (save_to_es env0 record_x store_down 3))) index_name)"
proof -
  have t: "dict_get record_x ''title'' = Some (PStr ''X'')" "strip ''X'' \<noteq> []"
    by (simp_all add: record_x_def dict_get_def strip_def py_isspace_def)
  have d: "ensure_date env0 record_x = Inr record_x"
    by (simp add: ensure_date_def get_stripped_def record_x_def dict_get_def strip_def
        py_isspace_def)
  have p: "ensure_pid env0 record_x = Inr record_x"
    by (simp add: ensure_pid_def record_x_def dict_get_def)
  have f: "faults store_down = replicate 3 True @ []"
    by (simp add: store_down_def numeral_3_eq_3)
  have c: "clean_document env0 (clean_data record_x) = record_x"
    by (simp add: record_x_def clean_data_def time_fields_to_exclude_def clean_value_def)
  have "Result (fst (save_to_es env0 record_x store_down 3)) = ''Y'' \<and>
      (\<exists>d \<in> set (docs_of (snd (snd (save_to_es env0 record_x store_down 3))) index_name).
         doc_source d = clean_document env0 (clean_data record_x))"
    by (rule mp [OF conjunct2 [OF search_failure_does_not_block_upload [OF t d p f]]]) simp_all
  with c f show ?thesis
    unfolding list_ex_iff by simp
qed

section \<open>The driver: what one article changes\<close>

lemma text_embeddings_3_world:
  "history (snd (text_embeddings_3 e text w)) = history w \<and>
   ledger (snd (text_embeddings_3 e text w)) = ledger w \<and>
   ledger_writable (snd (text_embeddings_3 e text w)) = ledger_writable w"
  by (simp add: text_embeddings_3_def Let_def split: option.splits)

lemma ledger_has_title_append:
  "ledger_has_title (ls @ [Rec r]) t \<longleftrightarrow>
     ledger_has_title ls t \<or> dict_get r ''title'' = Some (PStr t)"
  by (auto simp: ledger_has_title_def)

lemma embedding_and_save_world:
  assumes "embedding_and_save e report w = (res, report', w')"
  shows "history w' = history w \<and> ledger_writable w' = ledger_writable w \<and>
         (ledger w' = ledger w \<or>
          (\<exists>r. ledger w' = ledger w @ [Rec r] \<and> dict_get r ''title'' = dict_get report ''title''))"
proof -
  have te: "history (snd (text_embeddings_3 e tx w)) = history w \<and>
   ledger (snd (text_embeddings_3 e tx w)) = ledger w \<and>
   ledger_writable (snd (text_embeddings_3 e tx w)) = ledger_writable w" for tx
    by (rule text_embeddings_3_world)
  have bk: "history (snd (backup_to_jsonl r w1)) = history w1 \<and>
      ledger_writable (snd (backup_to_jsonl r w1)) = ledger_writable w1 \<and>
      (ledger (snd (backup_to_jsonl r w1)) = ledger w1 \<or>
       ledger (snd (backup_to_jsonl r w1)) = ledger w1 @ [Rec r])" for r w1
    by (simp add: backup_to_jsonl_def)
  show ?thesis
  proof (cases "dict_get report ''title''")
    case None
    with assms show ?thesis by (simp add: embedding_and_save_def)
  next
    case (Some tv)
    show ?thesis
    proof (cases "get_stripped report ''full_content''")
      case (Inl ex)
      with Some assms show ?thesis by (simp add: embedding_and_save_def)
    next
      case (Inr content)
      define step where "step =
        (if content \<noteq> [] then
           (case get_or_empty report ''full_content'' of
              PStr text \<Rightarrow>
                (case text_embeddings_3 e text w of
                   (Inl ex, w1) \<Rightarrow> (None, w1)
                 | (Inr v, w1) \<Rightarrow>
                     (Some (dict_set report ''embeddings'' (PList (map PFloat v))), w1))
            | _ \<Rightarrow> (None, w))
         else (Some (dict_set report ''embeddings'' (PList [])), w))"
      obtain r1 w1 where st: "step = (r1, w1)" by (cases step) auto
      have w1: "history w1 = history w \<and> ledger w1 = ledger w \<and>
          ledger_writable w1 = ledger_writable w"
        using st te
        by (auto simp: step_def split: if_splits pyval.splits prod.splits sum.splits)
          (metis snd_conv)+
      have r1: "r1 = Some x \<Longrightarrow> dict_get x ''title'' = dict_get report ''title''" for x
        using st
        by (auto simp: step_def dict_get_dict_set
            split: if_splits pyval.splits prod.splits sum.splits)
      show ?thesis
      proof (cases r1)
        case None
        with Some Inr st assms w1 show ?thesis
          by (simp add: embedding_and_save_def step_def [symmetric])
      next
        case (Some report1)
        obtain result report2 s' where sv:
          "save_to_es e report1 (store (snd (backup_to_jsonl report1 w1))) 3 = (result, report2, s')"
          by (cases "save_to_es e report1 (store (snd (backup_to_jsonl report1 w1))) 3") auto
        from \<open>dict_get report ''title'' = Some tv\<close> Inr st Some sv assms
        have "w' = (snd (backup_to_jsonl report1 w1))\<lparr>store := s'\<rparr>"
          by (simp add: embedding_and_save_def step_def [symmetric] Let_def)
        with bk [of report1 w1] w1 r1 [OF Some] show ?thesis by auto
      qed
    qed
  qed
qed

lemma process_article_effect:
  assumes "process_article e article article_id title st = st'"
  shows "total_processed st' = total_processed st + 1 \<and>
         processed st' = processed st @ [title] \<and>
         examined st' = examined st \<and>
         duplicate_found st' = duplicate_found st \<and>
         first_article_title st' =
           (case first_article_title st of None \<Rightarrow> Some title | Some t \<Rightarrow> Some t) \<and>
         history (world_of st') = history (world_of st) \<and>
         (\<forall>t. ledger_has_title (ledger (world_of st')) t \<longrightarrow>
              ledger_has_title (ledger (world_of st)) t \<or> t = title)"
proof -
  obtain report w1 where br: "build_report e article article_id title (world_of st) = (report, w1)"
    by (cases "build_report e article article_id title (world_of st)") auto
  obtain res report' w2 where es: "embedding_and_save e report w1 = (res, report', w2)"
    by (cases "embedding_and_save e report w1") auto
  from br build_report_world [of e article article_id title "world_of st"]
  have w1: "ledger w1 = ledger (world_of st)" "history w1 = history (world_of st)" by simp_all
  from br build_report_title [of e article article_id title "world_of st"]
  have rt: "dict_get report ''title'' = Some (PStr title)" by simp
  from embedding_and_save_world [OF es] rt w1
  have w2: "history w2 = history (world_of st)"
    and l2: "ledger w2 = ledger (world_of st) \<or>
      (\<exists>r. ledger w2 = ledger (world_of st) @ [Rec r] \<and> dict_get r ''title'' = Some (PStr title))"
    by auto
  from l2 have lh: "\<forall>t. ledger_has_title (ledger w2) t \<longrightarrow>
      ledger_has_title (ledger (world_of st)) t \<or> t = title"
    by (auto simp: ledger_has_title_append)
  from assms br es have st': "world_of st' = w2" "total_processed st' = total_processed st + 1"
    "processed st' = processed st @ [title]" "examined st' = examined st"
    "duplicate_found st' = duplicate_found st"
    "first_article_title st' =
           (case first_article_title st of None \<Rightarrow> Some title | Some t \<Rightarrow> Some t)"
    by (auto simp: process_article_def)
  with w2 lh show ?thesis by simp
qed

lemma process_article_counted:
  "counted st \<Longrightarrow> counted (process_article e article article_id title st)"
  using process_article_effect [OF refl, of e article article_id title st]
  by (auto simp: counted_def split: list.splits)

text \<open>The entry loop keeps the history and the agreement of counters and trace.\<close>

lemma process_entries_inv:
  "counted st \<Longrightarrow>
   counted (process_entries e lct entries st) \<and>
   history (world_of (process_entries e lct entries st)) = history (world_of st)"
proof (induction e lct entries st rule: process_entries.induct)
  case (1 e lct st)
  then show ?case by simp
next
  case (2 e lct article article_id rest st)
  show ?case
  proof (cases "duplicate_found st")
    case True
    with "2.prems" show ?thesis by simp
  next
    case nd: False
    show ?thesis
    proof (cases "art_title article")
      case None
      with nd "2.IH"(1) "2.prems" show ?thesis by simp
    next
      case (Some title)
      show ?thesis
      proof (cases "title = []")
        case True
        with nd Some "2.IH"(2) "2.prems" show ?thesis by simp
      next
        case ne: False
        define st1 where "st1 = st\<lparr>examined := examined st @ [title]\<rparr>"
        have c1: "counted st1" using "2.prems" by (simp add: st1_def counted_def)
        have h1: "history (world_of st1) = history (world_of st)" by (simp add: st1_def)
        show ?thesis
        proof (cases "ledger_has_title (ledger (world_of st1)) title")
          case True
          with nd Some ne "2.IH"(3) [OF nd Some ne st1_def True c1] h1 show ?thesis
            by (simp add: st1_def [symmetric] Let_def)
        next
          case nl: False
          show ?thesis
          proof (cases "truthy lct \<and> PStr title = lct")
            case True
            with nd Some ne nl c1 h1 show ?thesis
              by (simp add: st1_def [symmetric] Let_def counted_def)
          next
            case ns: False
            have c2: "counted (process_article e article article_id title st1)"
              by (rule process_article_counted [OF c1])
            have h2: "history (world_of (process_article e article article_id title st1)) =
                history (world_of st)"
              using process_article_effect [OF refl, of e article article_id title st1] h1
              by simp
            from "2.IH"(4) [OF nd Some ne st1_def nl ns c2] h2 nd Some ne nl ns
            show ?thesis by (auto simp add: st1_def [symmetric] Let_def)
          qed
        qed
      qed
    qed
  qed
qed


text \<open>The page loop keeps them too, however it ends.\<close>

lemma crawl_pages_inv:
  "counted st \<Longrightarrow>
   (case crawl_pages e max_pages lct page st of
      Inl (ex, st') \<Rightarrow> counted st' \<and> history (world_of st') = history (world_of st)
    | Inr st' \<Rightarrow> counted st' \<and> history (world_of st') = history (world_of st))"
proof (induction e max_pages lct page st rule: crawl_pages.induct)
  case (1 e max_pages lct page st)
  show ?case
  proof (cases "\<not> duplicate_found st \<and> page \<le> max_pages")
    case False
    with "1.prems" show ?thesis by (subst crawl_pages.simps) auto
  next
    case go: True
    show ?thesis
    proof (cases "fetch_page e page")
      case FetchFailed
      with go "1.prems" show ?thesis by (subst crawl_pages.simps) simp
    next
      case (Page articles has_next)
      show ?thesis
      proof (cases "articles = []")
        case True
        with go Page "1.prems" show ?thesis by (subst crawl_pages.simps) simp
      next
        case ne: False
        define st' where "st' = process_entries e lct (reporter_articles articles) st"
        from process_entries_inv [OF "1.prems", of e lct "reporter_articles articles"]
        have i: "counted st'" "history (world_of st') = history (world_of st)"
          by (simp_all add: st'_def)
        show ?thesis
        proof (cases "\<not> duplicate_found st' \<and> has_next")
          case False
          with go Page ne i show ?thesis
            by (subst crawl_pages.simps) (auto simp: st'_def [symmetric] Let_def)
        next
          case True
          then have nd: "\<not> duplicate_found st'" and hn: "\<not> \<not> has_next" by simp_all
          from "1.IH" [OF go Page ne st'_def nd hn i(1)] i(2)
          have "case crawl_pages e max_pages lct (page + 1) st' of
              Inl (ex, st'') \<Rightarrow> counted st'' \<and> history (world_of st'') = history (world_of st)
            | Inr st'' \<Rightarrow> counted st'' \<and> history (world_of st'') = history (world_of st)"
            by (auto split: sum.splits)
          with go Page ne True show ?thesis
            by (subst crawl_pages.simps) (simp add: st'_def [symmetric] Let_def)
        qed
      qed
    qed
  qed
qed

lemma get_last_crawled_title_update:
  "get_last_crawled_title (update_last_crawled_title e first w) = PStr first"
  by (simp add: get_last_crawled_title_def update_last_crawled_title_def dict_get_dict_set)

section \<open>The cursor update (\<^verbatim>\<open>main_process\<close>, lines 544 to 547)\<close>

text \<open>
  C1, as the code has it. In a run that returns its statistics, the cursor is rewritten
  exactly when at least one article was processed and the stop condition never fired,
  and then to the title of the first article processed; otherwise, in particular when
  the stop condition fired, the history file is as before. A run that a failed page fetch
  aborts leaves the history file as before, whatever it had processed.
\<close>

theorem cursor_update_rule:
  "(main_process e w max_pages = (Inr stats, w') \<longrightarrow>
      (\<exists>st. crawl_pages e max_pages (get_last_crawled_title w) 1 (initial_state w) = Inr st \<and>
         st_total stats = total_processed st \<and>
         total_processed st = length (processed st) \<and>
         (if 0 < total_processed st \<and> \<not> duplicate_found st
          then \<exists>first rest. processed st = first # rest \<and>
                 w' = update_last_crawled_title e first (world_of st) \<and>
                 get_last_crawled_title w' = PStr first
          else history w' = history w))) \<and>
   (main_process e w max_pages = (Inl ex, w') \<longrightarrow> history w' = history w)"
proof -
  have c0: "counted (initial_state w)"
    by (simp add: counted_def initial_state_def)
  have h0: "history (world_of (initial_state w)) = history w"
    by (simp add: initial_state_def)
  note inv = crawl_pages_inv [OF c0, of e max_pages "get_last_crawled_title w" 1]
  show ?thesis
  proof (cases "crawl_pages e max_pages (get_last_crawled_title w) 1 (initial_state w)")
    case (Inl a)
    obtain ex' st where a: "a = (ex', st)" by (cases a) auto
    with Inl inv h0 have "history (world_of st) = history w" by simp
    with Inl a show ?thesis by (auto simp: main_process_def Let_def)
  next
    case (Inr st)
    with inv h0 have c: "counted st" and h: "history (world_of st) = history w" by simp_all
    show ?thesis
    proof (cases "processed st")
      case Nil
      with c have "first_article_title st = None" "total_processed st = 0"
        by (simp_all add: counted_def)
      with Inr h Nil show ?thesis by (auto simp: main_process_def Let_def)
    next
      case (Cons first rest)
      with c have f: "first_article_title st = Some first"
        and t: "total_processed st = length (processed st)"
        by (simp_all add: counted_def)
      with Inr h Cons show ?thesis
        by (auto simp: main_process_def Let_def get_last_crawled_title_update)
    qed
  qed
qed

section \<open>The stop condition (\<^verbatim>\<open>main_process\<close>, lines 347 to 368)\<close>

text \<open>Entries that are all new: each is examined and processed, in order.\<close>

lemma process_entries_all_new:
  assumes "\<not> duplicate_found st"
    and "map (\<lambda>x. art_title (fst x)) es = map Some ts"
    and "[] \<notin> set ts" and "distinct ts"
    and "\<forall>t \<in> set ts. \<not> ledger_has_title (ledger (world_of st)) t"
    and "\<forall>t \<in> set ts. \<not> (truthy lct \<and> PStr t = lct)"
  shows "\<not> duplicate_found (process_entries e lct es st) \<and>
         processed (process_entries e lct es st) = processed st @ ts \<and>
         examined (process_entries e lct es st) = examined st @ ts \<and>
         (\<forall>t. ledger_has_title (ledger (world_of (process_entries e lct es st))) t \<longrightarrow>
              ledger_has_title (ledger (world_of st)) t \<or> t \<in> set ts)"
  using assms
proof (induction es arbitrary: st ts)
  case Nil
  then show ?case by simp
next
  case (Cons x es)
  obtain article article_id where x: "x = (article, article_id)" by (cases x) auto
  from Cons.prems(2) x obtain t ts' where ts: "ts = t # ts'" and at: "art_title article = Some t"
    and rest: "map (\<lambda>x. art_title (fst x)) es = map Some ts'"
    by (cases ts) auto
  from Cons.prems(3,4,5,6) ts have t: "t \<noteq> []" "t \<notin> set ts'" "distinct ts'" "[] \<notin> set ts'"
    "\<not> ledger_has_title (ledger (world_of st)) t" "\<not> (truthy lct \<and> PStr t = lct)"
    by auto
  define st1 where "st1 = st\<lparr>examined := examined st @ [t]\<rparr>"
  define st2 where "st2 = process_article e article article_id t st1"
  note eff = process_article_effect [OF st2_def [symmetric]]
  have step: "process_entries e lct (x # es) st = process_entries e lct es st2"
    using Cons.prems(1) x at t by (auto simp add: st1_def st2_def Let_def)
  have nd2: "\<not> duplicate_found st2" using eff Cons.prems(1) by (simp add: st1_def)
  have l2: "\<forall>u \<in> set ts'. \<not> ledger_has_title (ledger (world_of st2)) u"
    using eff Cons.prems(5) ts t(2) by (auto simp: st1_def)
  have s2: "\<forall>u \<in> set ts'. \<not> (truthy lct \<and> PStr u = lct)"
    using Cons.prems(6) ts by simp
  from Cons.IH [OF nd2 rest t(4) t(3) l2 s2] eff
  show ?case unfolding step ts by (auto simp: st1_def)
qed

text \<open>Entries that are new up to the one whose title is the cursor: the loop stops there.\<close>

lemma process_entries_history:
  "history (world_of (process_entries e lct es st)) = history (world_of st)"
proof (induction e lct es st rule: process_entries.induct)
  case (1 e lct st)
  then show ?case by simp
next
  case (2 e lct article article_id rest st)
  show ?case
    using "2.IH" process_article_effect [OF refl, of e article article_id]
    by (auto simp: Let_def split: option.splits)
qed

lemma process_entries_append:
  "\<not> duplicate_found (process_entries e lct xs st) \<Longrightarrow>
   process_entries e lct (xs @ ys) st = process_entries e lct ys (process_entries e lct xs st)"
proof (induction xs arbitrary: st)
  case Nil
  then show ?case by simp
next
  case (Cons x xs)
  obtain article article_id where x: "x = (article, article_id)" by (cases x) auto
  from Cons.prems x have nd: "\<not> duplicate_found st" by (cases "duplicate_found st") simp_all
  show ?case
  proof (cases "art_title article")
    case None
    with nd x Cons.prems have "\<not> duplicate_found (process_entries e lct xs st)" by simp
    from Cons.IH [OF this] nd x None show ?thesis by simp
  next
    case (Some t)
    show ?thesis
    proof (cases "t = []")
      case True
      with nd x Some Cons.prems have "\<not> duplicate_found (process_entries e lct xs st)" by simp
      from Cons.IH [OF this] nd x Some True show ?thesis by simp
    next
      case ne: False
      define st1 where "st1 = st\<lparr>examined := examined st @ [t]\<rparr>"
      show ?thesis
      proof (cases "ledger_has_title (ledger (world_of st1)) t")
        case True
        with nd x Some ne Cons.prems have "\<not> duplicate_found (process_entries e lct xs st1)"
          by (simp add: st1_def Let_def)
        from Cons.IH [OF this] nd x Some ne True show ?thesis
          by (simp add: st1_def Let_def)
      next
        case nl: False
        show ?thesis
        proof (cases "truthy lct \<and> PStr t = lct")
          case True
          with nd x Some ne nl Cons.prems show ?thesis
            by (simp add: st1_def Let_def)
        next
          case False
          with nd x Some ne nl Cons.prems
          have "\<not> duplicate_found (process_entries e lct xs
                  (process_article e article article_id t st1))"
            by (auto simp add: st1_def Let_def)
          from Cons.IH [OF this] nd x Some ne nl False show ?thesis
            by (auto simp add: st1_def Let_def)
        qed
      qed
    qed
  qed
qed

lemma process_entries_stop:
  assumes "\<not> duplicate_found st"
    and "map (\<lambda>x. art_title (fst x)) pre = map Some ts"
    and "art_title article = Some t" and "t \<noteq> []"
    and "[] \<notin> set ts" and "distinct (ts @ [t])"
    and "\<forall>u \<in> set (ts @ [t]). \<not> ledger_has_title (ledger (world_of st)) u"
  shows "duplicate_found (process_entries e (PStr t) (pre @ (article, article_id) # post) st) \<and>
         processed (process_entries e (PStr t) (pre @ (article, article_id) # post) st) =
           processed st @ ts \<and>
         examined (process_entries e (PStr t) (pre @ (article, article_id) # post) st) =
           examined st @ ts @ [t] \<and>
         history (world_of (process_entries e (PStr t) (pre @ (article, article_id) # post) st)) =
           history (world_of st)"
proof -
  define st1 where "st1 = process_entries e (PStr t) pre st"
  have ns: "\<forall>u \<in> set ts. \<not> (truthy (PStr t) \<and> PStr u = PStr t)"
    using assms(6) by auto
  from assms(6) have d: "distinct ts" by simp
  from assms(7) have l: "\<forall>u \<in> set ts. \<not> ledger_has_title (ledger (world_of st)) u" by simp
  note a = process_entries_all_new [OF assms(1,2,5) d l ns, where e = e, folded st1_def]
  note hist = process_entries_history [of e "PStr t" pre st]
  have nl: "\<not> ledger_has_title (ledger (world_of st1)) t"
    using a assms(6,7) by auto
  have "process_entries e (PStr t) (pre @ (article, article_id) # post) st =
      process_entries e (PStr t) ((article, article_id) # post) st1"
    using a process_entries_append [of e "PStr t" pre st] by (simp add: st1_def)
  also have "\<dots> = st1\<lparr>examined := examined st1 @ [t], duplicate_found := True\<rparr>"
    using a nl assms(3,4) by (simp add: Let_def)
  finally have r: "process_entries e (PStr t) (pre @ (article, article_id) # post) st =
      st1\<lparr>examined := examined st1 @ [t], duplicate_found := True\<rparr>" .
  have h: "history (world_of st1) = history (world_of st)"
    using hist by (simp add: st1_def)
  show ?thesis unfolding r using a h by simp
qed

lemma upt_head: "p \<le> n \<Longrightarrow> [p..<Suc n] = p # [Suc p..<Suc n]"
  by (rule upt_conv_Cons) simp

lemma listing_step: "p \<le> n \<Longrightarrow> listing e p n = page_entries e p @ listing e (Suc p) n"
  unfolding listing_def by (simp only: upt_head list.map concat.simps)

lemma listing_empty: "n < p \<Longrightarrow> listing e p n = []"
  unfolding listing_def by simp

lemma served_step:
  assumes "served e p n" and "p \<le> n"
  shows "\<exists>articles has_next. fetch_page e p = Page articles has_next \<and> articles \<noteq> [] \<and>
           (p < n \<longrightarrow> has_next) \<and> served e (Suc p) n"
proof -
  from assms have "list_all (\<lambda>q. case fetch_page e q of
                     FetchFailed \<Rightarrow> False
                   | Page articles has_next \<Rightarrow> articles \<noteq> [] \<and> (q < n \<longrightarrow> has_next))
       (p # [Suc p..<Suc n])"
    unfolding served_def by (simp only: upt_head)
  then show ?thesis
    unfolding served_def by (cases "fetch_page e p") (simp_all del: upt_Suc)
qed

end
